theory Spec2Isabelle
  imports Main "HOL-Library.Word"
begin

unbundle bit_operations_syntax

section \<open>The cipher filter of OpenCDK (libextra/opencdk/cipher.c)\<close>

text \<open>
  The theory embeds the functions of \<^verbatim>\<open>cipher.c\<close>: \<^verbatim>\<open>write_header\<close>,
  \<^verbatim>\<open>write_mdc_packet\<close>, \<^verbatim>\<open>num2bits\<close>, \<^verbatim>\<open>pow2\<close>, \<^verbatim>\<open>write_partial_block\<close>,
  \<^verbatim>\<open>cipher_encode_file\<close>, \<^verbatim>\<open>read_header\<close>, \<^verbatim>\<open>finalize_mdc\<close>,
  \<^verbatim>\<open>cipher_decode_file\<close>, \<^verbatim>\<open>cipher_decode\<close> and \<^verbatim>\<open>cipher_encode\<close>.
  Streams are explicit values, the filter context \<^verbatim>\<open>cipher_filter_t\<close> is a record that
  every function returns updated, and every \<^verbatim>\<open>return\<close> of the C code is a branch.
  Pointer arguments are taken to be valid, so the \<^verbatim>\<open>CDK_Inv_Value\<close> returns guarding
  NULL pointers have no counterpart.
\<close>

subsection \<open>Bytes, return codes, streams\<close>

type_synonym byte = "8 word"

text \<open>
  The return codes that \<^verbatim>\<open>cipher.c\<close> produces. \<open>CDK_Lib_Error\<close> stands for a code
  obtained from \<^verbatim>\<open>map_gcry_error\<close> or from the packet writer. \<open>Memory_Fault\<close> is not a
  return code: it marks a run in which the C program reads or writes outside a buffer
  or through a NULL pointer, where its behaviour is undefined.
\<close>

datatype cdk_error_t =
    CDK_Success
  | CDK_EOF
  | CDK_Inv_Value
  | CDK_Inv_Algo
  | CDK_Inv_Packet
  | CDK_Inv_Mode
  | CDK_File_Error
  | CDK_Chksum_Error
  | CDK_Bad_MDC
  | CDK_Lib_Error nat
  | Memory_Fault

text \<open>
  An input \<^verbatim>\<open>FILE *\<close>: the bytes of the file, the read position, the end-of-file
  indicator and whether \<^verbatim>\<open>fstat\<close> succeeds on it. The output \<^verbatim>\<open>FILE *\<close> is only
  appended to and is the list of bytes written so far.
\<close>

record cfile =
  f_data :: "byte list"
  f_pos :: nat
  f_eof :: bool
  f_stat_ok :: bool

text \<open>
  \<^verbatim>\<open>fread (buf, 1, n, fp)\<close>: delivers the next \<open>n\<close> bytes, or all that are left when
  fewer are left; the end-of-file indicator is set exactly when the request could not
  be met in full. A request for no bytes changes nothing.
\<close>

definition fread :: "nat \<Rightarrow> cfile \<Rightarrow> byte list \<times> cfile" where
  "fread n fp =
     (let got = take n (drop (f_pos fp) (f_data fp))
      in (got, fp\<lparr>f_pos := f_pos fp + length got,
                   f_eof := (f_eof fp \<or> length got < n)\<rparr>))"

text \<open>\<^verbatim>\<open>fgetc\<close>: the next byte, or \<open>None\<close> for \<^verbatim>\<open>EOF\<close> with the indicator set.\<close>

definition fgetc :: "cfile \<Rightarrow> byte option \<times> cfile" where
  "fgetc fp =
     (if f_pos fp < length (f_data fp)
      then (Some (f_data fp ! f_pos fp), fp\<lparr>f_pos := f_pos fp + 1\<rparr>)
      else (None, fp\<lparr>f_eof := True\<rparr>))"

definition feof :: "cfile \<Rightarrow> bool" where
  "feof fp = f_eof fp"

text \<open>\<^verbatim>\<open>fp_get_length\<close>: the size \<^verbatim>\<open>fstat\<close> reports, or \<open>-1\<close> when it fails.\<close>

definition fp_get_length :: "cfile \<Rightarrow> int" where
  "fp_get_length fp = (if f_stat_ok fp then int (length (f_data fp)) else - 1)"

text \<open>Conversion of a signed value to \<^verbatim>\<open>size_t\<close> (64 bits).\<close>

definition size_t_of :: "int \<Rightarrow> nat" where
  "size_t_of x = nat (x mod 2 ^ 64)"

subsection \<open>What the file takes from outside\<close>

text \<open>
  Session key (\<^verbatim>\<open>cdk_dek_t\<close>), hash handle, cipher handle, packet and filter context.
  The declarations are in headers that are not part of the sources at hand; the fields
  are those \<^verbatim>\<open>cipher.c\<close> reads and writes. Lengths and counters are mathematical
  integers; where the C code converts to \<^verbatim>\<open>size_t\<close> the conversion is written out.
\<close>

record cdk_dek =
  dek_algo :: nat
  dek_key :: "byte list"
  dek_use_mdc :: bool
  dek_rfc1991 :: bool

record md_hd =
  md_algo :: nat
  md_data :: "byte list"

record cipher_hd =
  c_algo :: nat
  c_blklen :: nat
  c_key :: "byte list"
  c_iv :: "byte list"
  c_lastiv :: "byte list"
  c_unused :: nat
  c_sync :: bool

datatype cdk_pkttype = CDK_PKT_ENCRYPTED | CDK_PKT_ENCRYPTED_MDC

record cdk_packet =
  pkttype :: cdk_pkttype
  old_ctb :: bool
  ed_len :: int
  ed_extralen :: nat
  ed_mdc_method :: nat

record cipher_filter =
  cfx_hd :: cipher_hd
  cfx_mdc :: "md_hd option"
  cfx_mdc_method :: nat
  cfx_dek :: cdk_dek
  cfx_datalen :: int
  blkmode_on :: bool
  blkmode_size :: int
  blkmode_nleft :: int

text \<open>
  Everything \<^verbatim>\<open>cipher.c\<close> calls or reads that is defined elsewhere is a field of the
  environment: the constants \<^verbatim>\<open>BUFSIZE\<close> and \<^verbatim>\<open>DEF_BLOCKBITS\<close> of OpenCDK's
  \<^verbatim>\<open>main.h\<close>; from libgcrypt the block length of an algorithm, the block cipher itself
  (algorithm, key, block), the digest length and the digest of an algorithm, the bytes
  \<^verbatim>\<open>gcry_randomize\<close> delivers, and for each fallible call the mapped error it returns
  (\<open>None\<close> for success); and OpenCDK's packet writer \<^verbatim>\<open>_cdk_pkt_write_fp\<close>, which
  gives a return code and the header bytes it wrote.
\<close>

record env =
  BUFSIZE :: nat
  DEF_BLOCKBITS :: nat
  cipher_blklen :: "nat \<Rightarrow> nat"
  block_encrypt :: "nat \<Rightarrow> byte list \<Rightarrow> byte list \<Rightarrow> byte list"
  md_algo_dlen :: "nat \<Rightarrow> nat"
  md_hash :: "nat \<Rightarrow> byte list \<Rightarrow> byte list"
  random_byte :: "nat \<Rightarrow> byte"
  md_open_err :: "cdk_error_t option"
  cipher_open_err :: "cdk_error_t option"
  cipher_setiv_err :: "cdk_error_t option"
  cipher_setkey_err :: "cdk_error_t option"
  pkt_write_fp :: "cdk_packet \<Rightarrow> cdk_error_t \<times> byte list"

definition GCRY_MD_SHA1 :: nat where
  "GCRY_MD_SHA1 = 2"

subsection \<open>libgcrypt: hashing and cipher feedback mode\<close>

text \<open>
  A hash handle collects what is written to it; reading the digest of an algorithm
  the handle was not opened for gives NULL (\<open>None\<close>).
\<close>

definition gcry_md_open :: "nat \<Rightarrow> md_hd" where
  "gcry_md_open algo = \<lparr>md_algo = algo, md_data = []\<rparr>"

definition gcry_md_write :: "md_hd \<Rightarrow> byte list \<Rightarrow> md_hd" where
  "gcry_md_write md bs = md\<lparr>md_data := md_data md @ bs\<rparr>"

definition gcry_md_read :: "env \<Rightarrow> md_hd \<Rightarrow> nat \<Rightarrow> byte list option" where
  "gcry_md_read e md algo =
     (if md_algo md = algo then Some (md_hash e algo (md_data md)) else None)"

text \<open>
  Cipher feedback mode as libgcrypt runs it, one byte at a time: when the key stream
  of the current block is used up (\<open>c_unused = 0\<close>) the register is saved in
  \<open>c_lastiv\<close> and encrypted; the next key-stream byte is xored with the input and the
  ciphertext byte replaces it in the register. \<^verbatim>\<open>gcry_cipher_sync\<close> acts only on a
  handle opened with \<^verbatim>\<open>GCRY_CIPHER_ENABLE_SYNC\<close> and realigns the register to the last
  full block of ciphertext. \<^verbatim>\<open>gcry_cipher_encrypt\<close> and \<^verbatim>\<open>gcry_cipher_decrypt\<close> on an
  open handle return 0.
\<close>

definition gcry_cipher_open :: "env \<Rightarrow> nat \<Rightarrow> bool \<Rightarrow> cipher_hd" where
  "gcry_cipher_open e algo sync =
     \<lparr>c_algo = algo, c_blklen = cipher_blklen e algo, c_key = [],
      c_iv = replicate (cipher_blklen e algo) 0,
      c_lastiv = replicate (cipher_blklen e algo) 0,
      c_unused = 0, c_sync = sync\<rparr>"

definition gcry_cipher_setiv_null :: "cipher_hd \<Rightarrow> cipher_hd" where
  "gcry_cipher_setiv_null h = h\<lparr>c_iv := replicate (c_blklen h) 0, c_unused := 0\<rparr>"

definition gcry_cipher_setkey :: "cipher_hd \<Rightarrow> byte list \<Rightarrow> cipher_hd" where
  "gcry_cipher_setkey h k = h\<lparr>c_key := k\<rparr>"

definition cfb_refill :: "env \<Rightarrow> cipher_hd \<Rightarrow> cipher_hd" where
  "cfb_refill e h =
     (if c_unused h = 0
      then h\<lparr>c_lastiv := c_iv h,
             c_iv := block_encrypt e (c_algo h) (c_key h) (c_iv h),
             c_unused := c_blklen h\<rparr>
      else h)"

definition cfb_feed :: "cipher_hd \<Rightarrow> byte \<Rightarrow> cipher_hd" where
  "cfb_feed h c =
     h\<lparr>c_iv := (c_iv h)[c_blklen h - c_unused h := c], c_unused := c_unused h - 1\<rparr>"

definition cfb_mask :: "cipher_hd \<Rightarrow> byte" where
  "cfb_mask h = c_iv h ! (c_blklen h - c_unused h)"

fun gcry_cipher_encrypt :: "env \<Rightarrow> cipher_hd \<Rightarrow> byte list \<Rightarrow> byte list \<times> cipher_hd" where
  "gcry_cipher_encrypt e h [] = ([], h)"
| "gcry_cipher_encrypt e h (b # bs) =
     (let h1 = cfb_refill e h;
          c = cfb_mask h1 XOR b;
          r = gcry_cipher_encrypt e (cfb_feed h1 c) bs
      in (c # fst r, snd r))"

fun gcry_cipher_decrypt :: "env \<Rightarrow> cipher_hd \<Rightarrow> byte list \<Rightarrow> byte list \<times> cipher_hd" where
  "gcry_cipher_decrypt e h [] = ([], h)"
| "gcry_cipher_decrypt e h (c # cs) =
     (let h1 = cfb_refill e h;
          b = cfb_mask h1 XOR c;
          r = gcry_cipher_decrypt e (cfb_feed h1 c) cs
      in (b # fst r, snd r))"

definition gcry_cipher_sync :: "cipher_hd \<Rightarrow> cipher_hd" where
  "gcry_cipher_sync h =
     (if c_sync h \<and> c_unused h \<noteq> 0
      then h\<lparr>c_iv := drop (c_blklen h - c_unused h) (c_lastiv h)
                       @ take (c_blklen h - c_unused h) (c_iv h),
             c_unused := 0\<rparr>
      else h)"

lemma length_encrypt: "length (fst (gcry_cipher_encrypt e h xs)) = length xs"
  by (induction xs arbitrary: h) (simp_all add: Let_def)

subsection \<open>Encoding: header, trailer, partial blocks\<close>

text \<open>
  The packet that \<^verbatim>\<open>write_header\<close> builds (lines 113 to 139) and hands to the packet
  writer. \<^verbatim>\<open>cdk_pkt_alloc\<close> is taken to give a zeroed packet. The integrity-protected
  type is chosen when the key asks for it or the block length is not 8; the declared
  length is increased by 22 only when it is not 0.
\<close>

definition header_packet :: "env \<Rightarrow> cipher_filter \<Rightarrow> cdk_packet" where
  "header_packet e cfx =
     (let dek = cfx_dek cfx;
          blocksize = cipher_blklen e (dek_algo dek);
          use_mdc = (dek_use_mdc dek \<or> blocksize \<noteq> 8);
          datalen = (if use_mdc \<and> cfx_datalen cfx \<noteq> 0
                     then cfx_datalen cfx + 22 else cfx_datalen cfx)
      in \<lparr>pkttype = (if use_mdc then CDK_PKT_ENCRYPTED_MDC else CDK_PKT_ENCRYPTED),
          old_ctb = (dek_rfc1991 dek \<and> \<not> blkmode_on cfx),
          ed_len = (if blkmode_on cfx then 0 else datalen),
          ed_extralen = (if blkmode_on cfx then 0 else blocksize + 2),
          ed_mdc_method = (if use_mdc then GCRY_MD_SHA1 else 0)\<rparr>)"

text \<open>
  The prefix (lines 145 to 148): \<open>nprefix\<close> random bytes followed by a repeat of the
  last two of them.
\<close>

definition header_prefix :: "env \<Rightarrow> nat \<Rightarrow> byte list" where
  "header_prefix e nprefix =
     (let temp = map (random_byte e) [0..<nprefix]
      in temp @ [temp ! (nprefix - 2), temp ! (nprefix - 1)])"

definition md_write_opt :: "md_hd option \<Rightarrow> byte list \<Rightarrow> md_hd option" where
  "md_write_opt m bs = (case m of None \<Rightarrow> None | Some md \<Rightarrow> Some (gcry_md_write md bs))"

definition write_header ::
  "env \<Rightarrow> cipher_filter \<Rightarrow> byte list \<Rightarrow> cdk_error_t \<times> cipher_filter \<times> byte list" where
  "write_header e cfx out =
     (let dek = cfx_dek cfx;
          blocksize = cipher_blklen e (dek_algo dek)
      in if blocksize < 8 \<or> 16 < blocksize then (CDK_Inv_Algo, cfx, out)
      else
        let use_mdc = (dek_use_mdc dek \<or> blocksize \<noteq> 8);
            cfx1 = (if use_mdc \<and> cfx_datalen cfx \<noteq> 0
                    then cfx\<lparr>cfx_datalen := cfx_datalen cfx + 22\<rparr> else cfx);
            cfx2 = (if blkmode_on cfx1
                    then cfx1\<lparr>blkmode_nleft := int (BUFSIZE e)\<rparr> else cfx1)
        in if use_mdc \<and> md_open_err e \<noteq> None
           then (the (md_open_err e), cfx2\<lparr>cfx_mdc := None\<rparr>, out)
        else
          let cfx3 = (if use_mdc
                      then cfx2\<lparr>cfx_mdc := Some (gcry_md_open GCRY_MD_SHA1)\<rparr> else cfx2);
              w = pkt_write_fp e (header_packet e cfx);
              out1 = out @ snd w
          in if fst w \<noteq> CDK_Success then (fst w, cfx3, out1)
          else
            let nprefix = blocksize;
                temp = header_prefix e nprefix
            in if cipher_open_err e \<noteq> None then (the (cipher_open_err e), cfx3, out1)
            else
              let h0 = gcry_cipher_open e (dek_algo dek) (\<not> use_mdc)
              in if cipher_setiv_err e \<noteq> None
                 then (the (cipher_setiv_err e), cfx3\<lparr>cfx_hd := h0\<rparr>, out1)
              else
                let h1 = gcry_cipher_setiv_null h0
                in if cipher_setkey_err e \<noteq> None
                   then (the (cipher_setkey_err e), cfx3\<lparr>cfx_hd := h1\<rparr>, out1)
                else
                  let h2 = gcry_cipher_setkey h1 (dek_key dek);
                      mdc' = md_write_opt (cfx_mdc cfx3) temp;
                      enc = gcry_cipher_encrypt e h2 temp;
                      h3 = gcry_cipher_sync (snd enc);
                      out2 = out1 @ fst enc;
                      nleft = (if blkmode_on cfx3
                               then (blkmode_nleft cfx3 - int (blocksize + 2))
                                    - (if use_mdc then 22 + 1 else 0)
                               else blkmode_nleft cfx3)
                  in (CDK_Success,
                      cfx3\<lparr>cfx_hd := h3, cfx_mdc := mdc', blkmode_nleft := nleft\<rparr>,
                      out2))"

text \<open>
  \<^verbatim>\<open>write_mdc_packet\<close>: the two bytes \<open>0xD3, 0x14\<close> are hashed, the digest is read,
  and the 22 bytes are encrypted with the handle as the body left it and written.
\<close>

definition write_mdc_packet ::
  "env \<Rightarrow> byte list \<Rightarrow> cipher_filter \<Rightarrow> cdk_error_t \<times> cipher_filter \<times> byte list" where
  "write_mdc_packet e out cfx =
     (let dlen = md_algo_dlen e GCRY_MD_SHA1
      in if dlen \<noteq> 20 then (CDK_Inv_Algo, cfx, out)
      else
        case cfx_mdc cfx of
          None \<Rightarrow> (Memory_Fault, cfx, out)
        | Some md0 \<Rightarrow>
            let md = gcry_md_write md0 [0xD3, 0x14]
            in (case gcry_md_read e md GCRY_MD_SHA1 of
                  None \<Rightarrow> (Memory_Fault, cfx\<lparr>cfx_mdc := Some md\<rparr>, out)
                | Some digest \<Rightarrow>
                    let pktdata = [0xD3, 0x14] @ take dlen digest;
                        enc = gcry_cipher_encrypt e (cfx_hd cfx) pktdata
                    in (CDK_Success,
                        cfx\<lparr>cfx_mdc := Some md, cfx_hd := snd enc\<rparr>,
                        out @ fst enc)))"

text \<open>\<^verbatim>\<open>num2bits\<close>: the loop counts the right shifts that bring \<open>n\<close> down to 1.\<close>

fun num2bits_loop :: "nat \<Rightarrow> nat \<Rightarrow> nat" where
  "num2bits_loop i n = (if 1 < n then num2bits_loop (i + 1) (n div 2) else i)"

declare num2bits_loop.simps [simp del]

definition num2bits :: "nat \<Rightarrow> int" where
  "num2bits n = (if n = 0 then - 1 else int (num2bits_loop 0 n))"

text \<open>\<^verbatim>\<open>pow2\<close>: \<open>y\<close> left shifts of 1 in a \<^verbatim>\<open>size_t\<close>.\<close>

definition pow2 :: "nat \<Rightarrow> nat" where
  "pow2 y = ((\<lambda>x. (2 * x) mod 2 ^ 64) ^^ y) 1"

text \<open>
  \<^verbatim>\<open>write_partial_block\<close>. The first part (lines 233 to 259) chooses the next chunk
  when none is open and writes its length header; the second part reads up to the
  chunk size, hashes, encrypts and writes. In the last branch the C variable
  \<^verbatim>\<open>pktlen\<close> is reduced by 192 before it is stored as the chunk size, which the model
  keeps.
\<close>

definition next_partial ::
  "env \<Rightarrow> byte list \<Rightarrow> int \<Rightarrow> cipher_filter \<Rightarrow> byte list \<times> int \<times> cipher_filter" where
  "next_partial e out r_len cfx =
     (if blkmode_nleft cfx = 0 then
        if int (BUFSIZE e) < r_len then
          (out @ [of_nat (0xE0 OR DEF_BLOCKBITS e)],
           r_len - int (BUFSIZE e),
           cfx\<lparr>blkmode_nleft := int (BUFSIZE e)\<rparr>)
        else if 512 < r_len then
          let n = size_t_of (num2bits (size_t_of r_len));
              nleft = int (pow2 n)
          in (out @ [of_nat (0xE0 OR n)], r_len - nleft, cfx\<lparr>blkmode_nleft := nleft\<rparr>)
        else
          let pktlen = size_t_of r_len
          in if pktlen < 192 then
               (out @ [of_nat pktlen], r_len - int pktlen,
                cfx\<lparr>blkmode_nleft := int pktlen\<rparr>)
             else if pktlen < 8384 then
               let pktlen' = pktlen - 192
               in (out @ [of_nat (pktlen' div 256 + 192), of_nat (pktlen' mod 256)],
                   r_len - int pktlen',
                   cfx\<lparr>blkmode_nleft := int pktlen'\<rparr>)
             else (out, r_len - int pktlen, cfx\<lparr>blkmode_nleft := int pktlen\<rparr>)
      else (out, r_len - blkmode_nleft cfx, cfx))"

definition write_partial_block ::
  "env \<Rightarrow> cfile \<Rightarrow> byte list \<Rightarrow> int \<Rightarrow> cipher_filter
     \<Rightarrow> cdk_error_t \<times> cfile \<times> byte list \<times> int \<times> cipher_filter" where
  "write_partial_block e fp out r_len cfx =
     (case next_partial e out r_len cfx of
        (out1, r_len1, cfx1) \<Rightarrow>
          let n = (if size_t_of (blkmode_nleft cfx1) < BUFSIZE e + 1
                   then size_t_of (blkmode_nleft cfx1) else BUFSIZE e + 1);
              rd = fread n fp;
              buf = fst rd;
              nread = length buf
          in if nread = 0 then (CDK_EOF, snd rd, out1, r_len1, cfx1)
             else
               let mdc' = md_write_opt (cfx_mdc cfx1) buf;
                   enc = gcry_cipher_encrypt e (cfx_hd cfx1) buf
               in (CDK_Success, snd rd, out1 @ fst enc, r_len1,
                   cfx1\<lparr>cfx_mdc := mdc', cfx_hd := snd enc,
                        blkmode_nleft := blkmode_nleft cfx1 - int nread\<rparr>))"

lemma fread_progress:
  "fread n fp = (buf, fp') \<Longrightarrow> buf \<noteq> [] \<Longrightarrow>
     length (f_data fp') - f_pos fp' < length (f_data fp) - f_pos fp"
  by (auto simp: fread_def Let_def)

lemma write_partial_block_progress:
  assumes "write_partial_block e fp out r_len cfx = (CDK_Success, fp', out', r_len', cfx')"
  shows "length (f_data fp') - f_pos fp' < length (f_data fp) - f_pos fp"
proof -
  obtain out1 r1 cfx1 where np: "next_partial e out r_len cfx = (out1, r1, cfx1)"
    by (cases "next_partial e out r_len cfx") auto
  define n where "n = (if size_t_of (blkmode_nleft cfx1) < BUFSIZE e + 1
                       then size_t_of (blkmode_nleft cfx1) else BUFSIZE e + 1)"
  from assms np have "fst (fread n fp) \<noteq> []" and "fp' = snd (fread n fp)"
    by (auto simp: write_partial_block_def Let_def n_def split: if_splits)
  then show ?thesis
    using fread_progress [of n fp "fst (fread n fp)" "snd (fread n fp)"] by simp
qed

text \<open>
  \<^verbatim>\<open>cipher_encode_file\<close>: the loop runs while the end-of-file indicator of the input
  is clear. In block mode each round is one call of \<^verbatim>\<open>write_partial_block\<close> and any
  return code other than success leaves the loop; otherwise a round reads up to
  \<^verbatim>\<open>BUFSIZE\<close> bytes and leaves the loop when none came. The trailer is written only
  when the loop ended with success and a hash handle is present.
\<close>

function cipher_encode_loop ::
  "env \<Rightarrow> cipher_filter \<Rightarrow> cfile \<Rightarrow> byte list \<Rightarrow> int
     \<Rightarrow> cdk_error_t \<times> cipher_filter \<times> cfile \<times> byte list" where
  "cipher_encode_loop e cfx fp out len2 =
     (if feof fp then (CDK_Success, cfx, fp, out)
      else if blkmode_on cfx then
        (case write_partial_block e fp out len2 cfx of
           (rc, fp', out', len2', cfx') \<Rightarrow>
             if rc \<noteq> CDK_Success then (rc, cfx', fp', out')
             else cipher_encode_loop e cfx' fp' out' len2')
      else
        (case fread (BUFSIZE e) fp of
           (buf, fp') \<Rightarrow>
             if buf = [] then (CDK_Success, cfx, fp', out)
             else
               let mdc' = md_write_opt (cfx_mdc cfx) buf;
                   enc = gcry_cipher_encrypt e (cfx_hd cfx) buf
               in cipher_encode_loop e (cfx\<lparr>cfx_mdc := mdc', cfx_hd := snd enc\<rparr>)
                    fp' (out @ fst enc) len2))"
  by pat_completeness auto
termination
proof (relation "measure (\<lambda>(e, cfx, fp, out, len2). length (f_data fp) - f_pos fp)",
    goal_cases)
  case 1
  show ?case by simp
next
  case (2 e cfx fp out len2 rc y fp' z out' w len2' cfx')
  then have "write_partial_block e fp out len2 cfx = (CDK_Success, fp', out', len2', cfx')"
    by simp
  from write_partial_block_progress [OF this] show ?case by simp
next
  case (3 e cfx fp out len2 buf fp' mdc' enc)
  then have "fread (BUFSIZE e) fp = (buf, fp')" by simp
  from fread_progress [OF this] 3 show ?case by simp
qed

declare cipher_encode_loop.simps [simp del]

definition cipher_encode_file ::
  "env \<Rightarrow> cipher_filter \<Rightarrow> cfile \<Rightarrow> byte list
     \<Rightarrow> cdk_error_t \<times> cipher_filter \<times> cfile \<times> byte list" where
  "cipher_encode_file e cfx fp out =
     (let len = fp_get_length fp
      in if len = - 1 then (CDK_File_Error, cfx, fp, out)
      else
        case cipher_encode_loop e cfx fp out len of
          (rc, cfx1, fp1, out1) \<Rightarrow>
            if rc = CDK_Success \<and> cfx_mdc cfx1 \<noteq> None
            then (case write_mdc_packet e out1 cfx1 of
                    (rc2, cfx2, out2) \<Rightarrow> (rc2, cfx2, fp1, out2))
            else (rc, cfx1, fp1, out1))"

subsection \<open>Decoding: header, trailer check, body\<close>

text \<open>The \<^verbatim>\<open>fgetc\<close> loop of \<^verbatim>\<open>read_header\<close> (lines 355 to 361).\<close>

fun read_bytes :: "nat \<Rightarrow> cfile \<Rightarrow> byte list option \<times> cfile" where
  "read_bytes 0 fp = (Some [], fp)"
| "read_bytes (Suc n) fp =
     (case fgetc fp of
        (None, fp1) \<Rightarrow> (None, fp1)
      | (Some c, fp1) \<Rightarrow>
          (case read_bytes n fp1 of
             (None, fp2) \<Rightarrow> (None, fp2)
           | (Some cs, fp2) \<Rightarrow> (Some (c # cs), fp2)))"

definition read_header ::
  "env \<Rightarrow> cipher_filter \<Rightarrow> cfile \<Rightarrow> cdk_error_t \<times> cipher_filter \<times> cfile" where
  "read_header e cfx fp =
     (let dek = cfx_dek cfx;
          blocksize = cipher_blklen e (dek_algo dek)
      in if blocksize < 8 \<or> 16 < blocksize then (CDK_Inv_Algo, cfx, fp)
      else
        let nprefix = blocksize
        in if 0 < cfx_datalen cfx \<and> cfx_datalen cfx < int (nprefix + 2)
           then (CDK_Inv_Value, cfx, fp)
        else if cfx_mdc_method cfx \<noteq> 0 \<and> md_open_err e \<noteq> None
           then (the (md_open_err e), cfx\<lparr>cfx_mdc := None\<rparr>, fp)
        else
          let cfx1 = (if cfx_mdc_method cfx \<noteq> 0
                      then cfx\<lparr>cfx_mdc := Some (gcry_md_open (cfx_mdc_method cfx))\<rparr>
                      else cfx)
          in if cipher_open_err e \<noteq> None then (the (cipher_open_err e), cfx1, fp)
          else
            let h0 = gcry_cipher_open e (dek_algo dek) (cfx_mdc_method cfx = 0)
            in if cipher_setiv_err e \<noteq> None
               then (the (cipher_setiv_err e), cfx1\<lparr>cfx_hd := h0\<rparr>, fp)
            else
              let h1 = gcry_cipher_setiv_null h0
              in if cipher_setkey_err e \<noteq> None
                 then (the (cipher_setkey_err e), cfx1\<lparr>cfx_hd := h1\<rparr>, fp)
              else
                let h2 = gcry_cipher_setkey h1 (dek_key dek);
                    cfx2 = cfx1\<lparr>cfx_hd := h2\<rparr>
                in (case read_bytes (nprefix + 2) fp of
                      (None, fp1) \<Rightarrow> (CDK_File_Error, cfx2, fp1)
                    | (Some raw, fp1) \<Rightarrow>
                        let dec = gcry_cipher_decrypt e h2 raw;
                            temp = fst dec;
                            h3 = gcry_cipher_sync (snd dec);
                            cfx3 = cfx2\<lparr>cfx_hd := h3\<rparr>;
                            i = nprefix
                        in if temp ! (i - 2) \<noteq> temp ! i \<or> temp ! (i - 1) \<noteq> temp ! (i + 1)
                           then (CDK_Chksum_Error, cfx3, fp1)
                           else
                             let cfx4 = cfx3\<lparr>cfx_mdc := md_write_opt (cfx_mdc cfx3) temp\<rparr>;
                                 cfx5 = (if blkmode_on cfx4
                                         then cfx4\<lparr>blkmode_size :=
                                                blkmode_size cfx4 - int (nprefix + 2)\<rparr>
                                         else cfx4)
                             in (CDK_Success, cfx5, fp1)))"

text \<open>
  \<^verbatim>\<open>finalize_mdc\<close> gets the \<open>nread\<close> bytes just read and decrypted. It indexes them
  at \<open>nread - 22\<close> and \<open>nread - 21\<close>, hashes the first \<open>nread - 20\<close> of them and
  compares the last 20 with the digest. The function has no test of \<open>nread\<close>; with
  \<open>nread < 22\<close> the unsigned index wraps around and the access is outside the
  buffer.
\<close>

definition finalize_mdc :: "env \<Rightarrow> md_hd \<Rightarrow> byte list \<Rightarrow> nat \<Rightarrow> cdk_error_t \<times> md_hd" where
  "finalize_mdc e md buf nread =
     (let dlen = md_algo_dlen e GCRY_MD_SHA1
      in if dlen \<noteq> 20 then (CDK_Inv_Algo, md)
      else if nread < dlen + 2 then (Memory_Fault, md)
      else if buf ! (nread - dlen - 2) = 0xD3 \<and> buf ! (nread - dlen - 1) = 0x14 then
        let md1 = gcry_md_write md (take (nread - dlen) buf)
        in (case gcry_md_read e md1 GCRY_MD_SHA1 of
              None \<Rightarrow> (Memory_Fault, md1)
            | Some digest \<Rightarrow>
                let mdcbuf = take dlen digest
                in if mdcbuf \<noteq> take dlen (drop (nread - dlen) buf)
                   then (CDK_Bad_MDC, md1)
                   else (CDK_Success, md1))
      else (CDK_Inv_Packet, md))"

text \<open>
  Modelled from the spec: \<^verbatim>\<open>_cdk_pkt_read_len\<close>, the reader of a body length, is not
  among the sources. Following sections 4.3 and 6 of the specification, a first byte
  below 192 is the length itself; a first byte from 192 to 223 takes a second byte and
  gives \<open>(c1 - 192) * 256 + c2 + 192\<close>; \<open>0xFF\<close> is followed by a four-byte big-endian
  length; each of these ends partial mode. Any other byte with the top three bits set
  announces a partial chunk of \<open>2 ^ (c1 AND 0x1F)\<close> bytes and leaves partial mode on.
  At the end of the input the result is \<^verbatim>\<open>EOF\<close>, given as \<open>-1\<close>.
\<close>

definition pkt_read_len :: "cfile \<Rightarrow> bool \<Rightarrow> int \<times> bool \<times> cfile" where
  "pkt_read_len fp partial =
     (case fgetc fp of
        (None, fp1) \<Rightarrow> (- 1, partial, fp1)
      | (Some c1, fp1) \<Rightarrow>
          if unat c1 < 192 then (int (unat c1), False, fp1)
          else if unat c1 < 224 then
            (case fgetc fp1 of
               (None, fp2) \<Rightarrow> (- 1, False, fp2)
             | (Some c2, fp2) \<Rightarrow>
                 (int ((unat c1 - 192) * 256 + unat c2 + 192), False, fp2))
          else if unat c1 = 255 then
            (case read_bytes 4 fp1 of
               (None, fp2) \<Rightarrow> (- 1, False, fp2)
             | (Some cs, fp2) \<Rightarrow>
                 (int (foldl (\<lambda>a c. a * 256 + unat c) 0 cs), False, fp2))
          else (2 ^ unat (c1 AND 0x1F), partial, fp1))"

text \<open>
  One round of the loop of \<^verbatim>\<open>cipher_decode_file\<close> after a successful read (lines 424
  to 439): decrypt; if the read hit the end of the input and a hash handle is present,
  check the trailer and keep the last 22 bytes back; otherwise hash; write.
\<close>

definition decode_block ::
  "env \<Rightarrow> cipher_filter \<Rightarrow> bool \<Rightarrow> byte list \<Rightarrow> byte list
     \<Rightarrow> cdk_error_t \<times> cipher_filter \<times> byte list" where
  "decode_block e cfx at_eof raw out =
     (let nread = length raw;
          dec = gcry_cipher_decrypt e (cfx_hd cfx) raw;
          buf = fst dec;
          cfx1 = cfx\<lparr>cfx_hd := snd dec\<rparr>
      in case cfx_mdc cfx1 of
           None \<Rightarrow> (CDK_Success, cfx1, out @ buf)
         | Some md \<Rightarrow>
             if at_eof then
               (case finalize_mdc e md buf nread of
                  (rc, md1) \<Rightarrow>
                    if rc \<noteq> CDK_Success then (rc, cfx1\<lparr>cfx_mdc := Some md1\<rparr>, out)
                    else (CDK_Success, cfx1\<lparr>cfx_mdc := Some md1\<rparr>,
                          out @ take (nread - 22) buf))
             else (CDK_Success, cfx1\<lparr>cfx_mdc := Some (gcry_md_write md buf)\<rparr>, out @ buf))"

lemma fgetc_pos: "f_data (snd (fgetc fp)) = f_data fp \<and> f_pos fp \<le> f_pos (snd (fgetc fp))"
  by (simp add: fgetc_def)

lemma read_bytes_pos:
  "f_data (snd (read_bytes n fp)) = f_data fp \<and> f_pos fp \<le> f_pos (snd (read_bytes n fp))"
proof (induction n arbitrary: fp)
  case 0
  show ?case by simp
next
  case (Suc n)
  show ?case
    using Suc.IH [of "snd (fgetc fp)"] fgetc_pos [of fp]
    by (auto split: prod.splits option.splits)
qed

lemma pkt_read_len_pos:
  "pkt_read_len fp p = (sz, p', fp') \<Longrightarrow> f_data fp' = f_data fp \<and> f_pos fp \<le> f_pos fp'"
  using fgetc_pos [of fp] fgetc_pos [of "snd (fgetc fp)"] read_bytes_pos [of 4 "snd (fgetc fp)"]
  by (auto simp: pkt_read_len_def split: prod.splits option.splits if_splits)

text \<open>
  \<^verbatim>\<open>cipher_decode_file\<close>. The request is the chunk size in block mode, converted to
  \<^verbatim>\<open>size_t\<close> by \<^verbatim>\<open>fread\<close>, and the size of the buffer otherwise. A read of more
  than \<^verbatim>\<open>BUFSIZE\<close> bytes, possible in block mode, overruns the buffer.
\<close>

function cipher_decode_file ::
  "env \<Rightarrow> cipher_filter \<Rightarrow> cfile \<Rightarrow> byte list
     \<Rightarrow> cdk_error_t \<times> cipher_filter \<times> cfile \<times> byte list" where
  "cipher_decode_file e cfx fp out =
     (if feof fp then (CDK_Success, cfx, fp, out)
      else
        let nreq = (if blkmode_on cfx then size_t_of (blkmode_size cfx) else BUFSIZE e)
        in case fread nreq fp of
             (raw, fp1) \<Rightarrow>
               if BUFSIZE e < length raw then (Memory_Fault, cfx, fp1, out)
               else if raw = [] then (CDK_Success, cfx, fp1, out)
               else
                 (case decode_block e cfx (feof fp1) raw out of
                    (rc, cfx1, out1) \<Rightarrow>
                      if rc \<noteq> CDK_Success then (rc, cfx1, fp1, out1)
                      else if blkmode_on cfx1 then
                        (case pkt_read_len fp1 (blkmode_on cfx1) of
                           (sz, partial, fp2) \<Rightarrow>
                             if sz = - 1
                             then (CDK_Inv_Packet,
                                   cfx1\<lparr>blkmode_size := sz, blkmode_on := partial\<rparr>, fp2, out1)
                             else cipher_decode_file e
                                    (cfx1\<lparr>blkmode_size := sz, blkmode_on := partial\<rparr>) fp2 out1)
                      else cipher_decode_file e cfx1 fp1 out1))"
  by pat_completeness auto
termination
proof (relation "measure (\<lambda>(e, cfx, fp, out). length (f_data fp) - f_pos fp)", goal_cases)
  case 1
  show ?case by simp
next
  case (2 e cfx fp out nreq raw fp1 rc y cfx1 out1 sz z partial fp2)
  then have rd: "fread nreq fp = (raw, fp1)" and "raw \<noteq> []"
    and "pkt_read_len fp1 (blkmode_on cfx1) = (sz, partial, fp2)"
    by simp_all
  from fread_progress [OF rd \<open>raw \<noteq> []\<close>] pkt_read_len_pos [OF this(3)]
  show ?case by (simp, arith)
next
  case (3 e cfx fp out nreq raw fp1 rc y cfx1 out1)
  then have rd: "fread nreq fp = (raw, fp1)" and "raw \<noteq> []"
    by simp_all
  from fread_progress [OF rd \<open>raw \<noteq> []\<close>] show ?case by simp
qed

declare cipher_decode_file.simps [simp del]

definition cipher_decode ::
  "env \<Rightarrow> cipher_filter \<Rightarrow> cfile \<Rightarrow> byte list
     \<Rightarrow> cdk_error_t \<times> cipher_filter \<times> cfile \<times> byte list" where
  "cipher_decode e cfx fp out =
     (case read_header e cfx fp of
        (rc, cfx1, fp1) \<Rightarrow>
          if rc = CDK_Success then cipher_decode_file e cfx1 fp1 out
          else (rc, cfx1, fp1, out))"

text \<open>
  \<^verbatim>\<open>cipher_encode\<close>. Lines 482 to 484 record the length of the input and leave block
  mode when the input is shorter than \<^verbatim>\<open>BUFSIZE\<close>.
\<close>

definition encode_setup :: "env \<Rightarrow> cipher_filter \<Rightarrow> cfile \<Rightarrow> cipher_filter" where
  "encode_setup e cfx fp =
     (let cfx1 = cfx\<lparr>cfx_datalen := fp_get_length fp\<rparr>
      in if cfx_datalen cfx1 < int (BUFSIZE e) \<and> blkmode_on cfx1
         then cfx1\<lparr>blkmode_on := False\<rparr> else cfx1)"

definition cipher_encode ::
  "env \<Rightarrow> cipher_filter \<Rightarrow> cfile \<Rightarrow> byte list
     \<Rightarrow> cdk_error_t \<times> cipher_filter \<times> cfile \<times> byte list" where
  "cipher_encode e cfx fp out =
     (case write_header e (encode_setup e cfx fp) out of
        (rc, cfx1, out1) \<Rightarrow>
          if rc = CDK_Success then cipher_encode_file e cfx1 fp out1
          else (rc, cfx1, fp, out1))"

subsection \<open>Vocabulary of the statements\<close>

text \<open>
  The block length of the session key's algorithm; the local \<^verbatim>\<open>use_mdc\<close> of
  \<^verbatim>\<open>write_header\<close> (line 113 to 115); the handle after \<^verbatim>\<open>gcry_cipher_open\<close>,
  \<^verbatim>\<open>gcry_cipher_setiv\<close> and \<^verbatim>\<open>gcry_cipher_setkey\<close>; and an environment in which no
  library call fails.
\<close>

definition blocksize_of :: "env \<Rightarrow> cipher_filter \<Rightarrow> nat" where
  "blocksize_of e cfx = cipher_blklen e (dek_algo (cfx_dek cfx))"

definition hdr_use_mdc :: "env \<Rightarrow> cipher_filter \<Rightarrow> bool" where
  "hdr_use_mdc e cfx = (dek_use_mdc (cfx_dek cfx) \<or> blocksize_of e cfx \<noteq> 8)"

definition open_cipher :: "env \<Rightarrow> cdk_dek \<Rightarrow> bool \<Rightarrow> cipher_hd" where
  "open_cipher e dek sync =
     gcry_cipher_setkey (gcry_cipher_setiv_null (gcry_cipher_open e (dek_algo dek) sync))
       (dek_key dek)"

text \<open>The prefix as \<^verbatim>\<open>read_header\<close> decrypts it (lines 355 to 362).\<close>

definition decrypted_prefix :: "env \<Rightarrow> cipher_filter \<Rightarrow> cfile \<Rightarrow> byte list" where
  "decrypted_prefix e cfx fp =
     fst (gcry_cipher_decrypt e (open_cipher e (cfx_dek cfx) (cfx_mdc_method cfx = 0))
            (take (blocksize_of e cfx + 2) (drop (f_pos fp) (f_data fp))))"

text \<open>
  The body as \<^verbatim>\<open>cipher_decode_file\<close> decrypts it after \<^verbatim>\<open>read_header\<close>: everything
  that follows the prefix in the input, decrypted with the cipher handle as
  \<^verbatim>\<open>read_header\<close> leaves it (line 362).
\<close>

definition decrypted_body :: "env \<Rightarrow> cipher_filter \<Rightarrow> cfile \<Rightarrow> byte list" where
  "decrypted_body e cfx fp =
     fst (gcry_cipher_decrypt e
            (gcry_cipher_sync (snd (gcry_cipher_decrypt e
               (open_cipher e (cfx_dek cfx) (cfx_mdc_method cfx = 0))
               (take (blocksize_of e cfx + 2) (drop (f_pos fp) (f_data fp))))))
            (drop (f_pos fp + (blocksize_of e cfx + 2)) (f_data fp)))"

text \<open>
  The 22 bytes of the MDC packet for a hash handle \<open>md\<close> and the bytes \<open>body\<close>
  hashed after it: the prefix \<open>0xD3, 0x14\<close> and the first 20 bytes of the digest of
  everything hashed, the prefix included.
\<close>

definition mdc_trailer :: "env \<Rightarrow> md_hd \<Rightarrow> byte list \<Rightarrow> byte list" where
  "mdc_trailer e md body =
     [0xD3, 0x14] @ take 20 (md_hash e GCRY_MD_SHA1 (md_data md @ body @ [0xD3, 0x14]))"

text \<open>
  The verdict of \<^verbatim>\<open>finalize_mdc\<close> on a whole decrypted body \<open>D\<close> for a hash handle
  \<open>md\<close>.
\<close>

definition mdc_verdict :: "env \<Rightarrow> md_hd \<Rightarrow> byte list \<Rightarrow> cdk_error_t" where
  "mdc_verdict e md D = fst (finalize_mdc e md D (length D))"

text \<open>
  What the loop of \<^verbatim>\<open>cipher_decode_file\<close> makes of a decrypted body \<open>D\<close> that it reads
  in rounds of \<^verbatim>\<open>BUFSIZE\<close> bytes with a hash handle present, by the length \<open>r\<close> of the
  last, shorter round: the return code and the bytes written.
\<close>

definition decode_rounds :: "env \<Rightarrow> md_hd \<Rightarrow> byte list \<Rightarrow> cdk_error_t \<times> byte list" where
  "decode_rounds e md D =
     (let n = length D; r = n mod BUFSIZE e
      in if r = 0 then (CDK_Success, D)
         else if r < 22 then (Memory_Fault, take (n - r) D)
         else if mdc_verdict e md D = CDK_Success then (CDK_Success, take (n - 22) D)
         else (mdc_verdict e md D, take (n - r) D))"

text \<open>The last 22 bytes of a decrypted body, and what precedes them.\<close>

definition trailer_of :: "byte list \<Rightarrow> byte list" where
  "trailer_of D = drop (length D - 22) D"

definition body_of :: "byte list \<Rightarrow> byte list" where
  "body_of D = take (length D - 22) D"

text \<open>
  The hash handle as \<^verbatim>\<open>write_header\<close> leaves it with MDC active: opened for SHA-1,
  with the prefix written to it.
\<close>

definition sent_md :: "env \<Rightarrow> cipher_filter \<Rightarrow> md_hd" where
  "sent_md e cfx =
     gcry_md_write (gcry_md_open GCRY_MD_SHA1) (header_prefix e (blocksize_of e cfx))"

definition lib_ok :: "env \<Rightarrow> bool" where
  "lib_ok e = (md_open_err e = None \<and> cipher_open_err e = None
               \<and> cipher_setiv_err e = None \<and> cipher_setkey_err e = None)"

subsection \<open>A sample environment\<close>

text \<open>
  Concrete inputs for the closed theorems below: an environment with the buffer size
  8192 (13 bits), a toy block cipher of block length \<open>bl\<close>, a toy 20-byte digest,
  the random bytes 0, 1, 2, ..., no failing library call and a packet writer that
  writes the tag byte only; a filter context as a caller sets it up; and a fresh
  input file.
\<close>

definition sample_env :: "nat \<Rightarrow> env" where
  "sample_env bl =
     \<lparr>BUFSIZE = 8192, DEF_BLOCKBITS = 13,
      cipher_blklen = (\<lambda>algo. bl),
      block_encrypt = (\<lambda>algo key blk. rev (map (\<lambda>b. b + 1) blk)),
      md_algo_dlen = (\<lambda>algo. 20),
      md_hash = (\<lambda>algo m. replicate 20 (foldr (+) m 0)),
      random_byte = (\<lambda>i. of_nat i),
      md_open_err = None, cipher_open_err = None,
      cipher_setiv_err = None, cipher_setkey_err = None,
      pkt_write_fp = (\<lambda>p. (CDK_Success,
         [if pkttype p = CDK_PKT_ENCRYPTED_MDC then 0xD2 else 0xC9]))\<rparr>"

definition null_hd :: cipher_hd where
  "null_hd = \<lparr>c_algo = 0, c_blklen = 0, c_key = [], c_iv = [], c_lastiv = [],
              c_unused = 0, c_sync = False\<rparr>"

definition sample_cfx :: "bool \<Rightarrow> bool \<Rightarrow> nat \<Rightarrow> cipher_filter" where
  "sample_cfx use_mdc blk method =
     \<lparr>cfx_hd = null_hd, cfx_mdc = None, cfx_mdc_method = method,
      cfx_dek = \<lparr>dek_algo = 7, dek_key = [1, 2, 3], dek_use_mdc = use_mdc,
                 dek_rfc1991 = False\<rparr>,
      cfx_datalen = 0, blkmode_on = blk, blkmode_size = 0, blkmode_nleft = 0\<rparr>"

text \<open>A context with an open SHA-1 handle and an open, keyed cipher handle.\<close>

definition sample_open_cfx :: "nat \<Rightarrow> cipher_filter" where
  "sample_open_cfx bl =
     (sample_cfx False False GCRY_MD_SHA1)
       \<lparr>cfx_mdc := Some (gcry_md_open GCRY_MD_SHA1),
        cfx_hd := open_cipher (sample_env bl) (cfx_dek (sample_cfx False False GCRY_MD_SHA1)) False\<rparr>"

definition new_file :: "byte list \<Rightarrow> cfile" where
  "new_file bs = \<lparr>f_data = bs, f_pos = 0, f_eof = False, f_stat_ok = True\<rparr>"

section \<open>Properties\<close>

subsection \<open>Cipher feedback mode and hashing\<close>

lemma length_decrypt: "length (fst (gcry_cipher_decrypt e h xs)) = length xs"
  by (induction xs arbitrary: h) (simp_all add: Let_def)

lemma encrypt_append:
  "gcry_cipher_encrypt e h (xs @ ys) =
     (fst (gcry_cipher_encrypt e h xs)
        @ fst (gcry_cipher_encrypt e (snd (gcry_cipher_encrypt e h xs)) ys),
      snd (gcry_cipher_encrypt e (snd (gcry_cipher_encrypt e h xs)) ys))"
  by (induction xs arbitrary: h) (simp_all add: Let_def)

lemma decrypt_append:
  "gcry_cipher_decrypt e h (xs @ ys) =
     (fst (gcry_cipher_decrypt e h xs)
        @ fst (gcry_cipher_decrypt e (snd (gcry_cipher_decrypt e h xs)) ys),
      snd (gcry_cipher_decrypt e (snd (gcry_cipher_decrypt e h xs)) ys))"
  by (induction xs arbitrary: h) (simp_all add: Let_def)

lemma decrypt_encrypt:
  "gcry_cipher_decrypt e h (fst (gcry_cipher_encrypt e h xs))
     = (xs, snd (gcry_cipher_encrypt e h xs))"
  by (induction xs arbitrary: h) (simp_all add: Let_def)

declare gcry_cipher_encrypt.simps(2) [simp del] gcry_cipher_decrypt.simps(2) [simp del]

lemma md_write_opt_Nil: "md_write_opt m [] = m"
  by (cases m) (simp_all add: md_write_opt_def gcry_md_write_def)

lemma md_write_opt_append:
  "md_write_opt (md_write_opt m xs) ys = md_write_opt m (xs @ ys)"
  by (cases m) (simp_all add: md_write_opt_def gcry_md_write_def)

subsection \<open>The header step\<close>

lemma sample_lib_ok: "lib_ok (sample_env bl)"
  by (simp add: lib_ok_def sample_env_def)

lemma write_header_ok:
  assumes "8 \<le> blocksize_of e cfx" "blocksize_of e cfx \<le> 16" "lib_ok e"
    "fst (pkt_write_fp e (header_packet e cfx)) = CDK_Success"
  shows "write_header e cfx out =
    (CDK_Success,
     cfx\<lparr>cfx_datalen := (if hdr_use_mdc e cfx \<and> cfx_datalen cfx \<noteq> 0
                          then cfx_datalen cfx + 22 else cfx_datalen cfx),
         cfx_hd := gcry_cipher_sync (snd (gcry_cipher_encrypt e
                     (open_cipher e (cfx_dek cfx) (\<not> hdr_use_mdc e cfx))
                     (header_prefix e (blocksize_of e cfx)))),
         cfx_mdc := (if hdr_use_mdc e cfx
                     then Some (gcry_md_write (gcry_md_open GCRY_MD_SHA1)
                            (header_prefix e (blocksize_of e cfx)))
                     else md_write_opt (cfx_mdc cfx) (header_prefix e (blocksize_of e cfx))),
         blkmode_nleft := (if blkmode_on cfx
                           then int (BUFSIZE e) - int (blocksize_of e cfx + 2)
                                - (if hdr_use_mdc e cfx then 22 + 1 else 0)
                           else blkmode_nleft cfx)\<rparr>,
     out @ snd (pkt_write_fp e (header_packet e cfx))
         @ fst (gcry_cipher_encrypt e (open_cipher e (cfx_dek cfx) (\<not> hdr_use_mdc e cfx))
                  (header_prefix e (blocksize_of e cfx))))"
  using assms
  by (cases cfx)
     (auto simp: write_header_def Let_def lib_ok_def hdr_use_mdc_def open_cipher_def
        blocksize_of_def md_write_opt_def split: option.splits)

lemma read_bytes_take:
  "f_pos fp + n \<le> length (f_data fp) \<Longrightarrow>
     read_bytes n fp
       = (Some (take n (drop (f_pos fp) (f_data fp))), fp\<lparr>f_pos := f_pos fp + n\<rparr>)"
proof (induction n arbitrary: fp)
  case 0
  show ?case by simp
next
  case (Suc n)
  let ?fp1 = "fp\<lparr>f_pos := f_pos fp + 1\<rparr>"
  from Suc.prems have g: "fgetc fp = (Some (f_data fp ! f_pos fp), ?fp1)"
    by (simp add: fgetc_def)
  from Suc.prems have "f_pos ?fp1 + n \<le> length (f_data ?fp1)" by simp
  from Suc.IH [OF this]
  have r: "read_bytes n ?fp1 = (Some (take n (drop (f_pos fp + 1) (f_data fp))),
             fp\<lparr>f_pos := f_pos fp + 1 + n\<rparr>)"
    by simp
  from Suc.prems have "take (Suc n) (drop (f_pos fp) (f_data fp))
      = f_data fp ! f_pos fp # take n (drop (f_pos fp + 1) (f_data fp))"
    by (simp add: Cons_nth_drop_Suc [symmetric])
  with g r show ?case by (simp add: add.commute add.left_commute)
qed

lemma read_header_chksum:
  assumes "8 \<le> blocksize_of e cfx" "blocksize_of e cfx \<le> 16" "lib_ok e"
    "\<not> (0 < cfx_datalen cfx \<and> cfx_datalen cfx < int (blocksize_of e cfx + 2))"
    "f_pos fp + (blocksize_of e cfx + 2) \<le> length (f_data fp)"
    "decrypted_prefix e cfx fp ! (blocksize_of e cfx - 2)
        \<noteq> decrypted_prefix e cfx fp ! blocksize_of e cfx
     \<or> decrypted_prefix e cfx fp ! (blocksize_of e cfx - 1)
        \<noteq> decrypted_prefix e cfx fp ! (blocksize_of e cfx + 1)"
  shows "fst (read_header e cfx fp) = CDK_Chksum_Error
     \<and> snd (snd (read_header e cfx fp)) = fp\<lparr>f_pos := f_pos fp + (blocksize_of e cfx + 2)\<rparr>"
  using assms read_bytes_take [of fp "blocksize_of e cfx + 2"]
  by (auto simp: read_header_def Let_def lib_ok_def open_cipher_def blocksize_of_def
        decrypted_prefix_def)

subsection \<open>The block length check\<close>

text \<open>
  C6. \<^verbatim>\<open>write_header\<close> and \<^verbatim>\<open>read_header\<close> reject a block length below 8 or above
  16 (\<^verbatim>\<open>blocksize < 8 || blocksize > 16\<close>). The block length comes from
  \<^verbatim>\<open>gcry_cipher_get_algo_blklen\<close> of libgcrypt, which gives 0 for an algorithm it does
  not know, 1 for a stream cipher and 8 or 16 for a block cipher: never a value
  strictly between 8 and 16. For every block length that is not strictly between 8 and
  16 the test admits exactly 8 and 16: with any other block length \<^verbatim>\<open>cipher_encode\<close>
  and \<^verbatim>\<open>cipher_decode\<close> return \<open>CDK_Inv_Algo\<close>, the output is what it was and the
  input has not been read; with 8 or 16, and the library calls succeeding,
  \<^verbatim>\<open>read_header\<close> does not return \<open>CDK_Inv_Algo\<close> and \<^verbatim>\<open>write_header\<close> succeeds when
  the packet writer does.
\<close>

theorem block_length_8_or_16:
  assumes "blocksize_of e cfx \<le> 8 \<or> 16 \<le> blocksize_of e cfx"
  shows "(blocksize_of e cfx \<noteq> 8 \<and> blocksize_of e cfx \<noteq> 16 \<longrightarrow>
            cipher_encode e cfx fp out = (CDK_Inv_Algo, encode_setup e cfx fp, fp, out)
          \<and> cipher_decode e cfx fp out = (CDK_Inv_Algo, cfx, fp, out))
     \<and> ((blocksize_of e cfx = 8 \<or> blocksize_of e cfx = 16) \<and> lib_ok e \<longrightarrow>
            fst (read_header e cfx fp) \<noteq> CDK_Inv_Algo
          \<and> (fst (pkt_write_fp e (header_packet e (encode_setup e cfx fp))) = CDK_Success
               \<longrightarrow> fst (write_header e (encode_setup e cfx fp) out) = CDK_Success))"
proof -
  have dek: "cfx_dek (encode_setup e cfx fp) = cfx_dek cfx"
    by (simp add: encode_setup_def Let_def)
  have bse: "blocksize_of e (encode_setup e cfx fp) = blocksize_of e cfx"
    by (simp add: blocksize_of_def dek)
  have rej: "cipher_encode e cfx fp out = (CDK_Inv_Algo, encode_setup e cfx fp, fp, out)
      \<and> cipher_decode e cfx fp out = (CDK_Inv_Algo, cfx, fp, out)"
    if "blocksize_of e cfx \<noteq> 8" "blocksize_of e cfx \<noteq> 16"
  proof -
    from that assms have "blocksize_of e cfx < 8 \<or> 16 < blocksize_of e cfx" by auto
    then have lt: "cipher_blklen e (dek_algo (cfx_dek cfx)) < 8
        \<or> 16 < cipher_blklen e (dek_algo (cfx_dek cfx))"
      by (simp add: blocksize_of_def)
    have "cipher_encode e cfx fp out = (CDK_Inv_Algo, encode_setup e cfx fp, fp, out)"
      using lt by (auto simp: cipher_encode_def write_header_def dek Let_def)
    moreover have "cipher_decode e cfx fp out = (CDK_Inv_Algo, cfx, fp, out)"
      using lt by (auto simp: cipher_decode_def read_header_def Let_def)
    ultimately show ?thesis by blast
  qed
  have acc: "fst (read_header e cfx fp) \<noteq> CDK_Inv_Algo
      \<and> (fst (pkt_write_fp e (header_packet e (encode_setup e cfx fp))) = CDK_Success
           \<longrightarrow> fst (write_header e (encode_setup e cfx fp) out) = CDK_Success)"
    if b: "blocksize_of e cfx = 8 \<or> blocksize_of e cfx = 16" and l: "lib_ok e"
  proof -
    from b have r: "8 \<le> cipher_blklen e (dek_algo (cfx_dek cfx))"
      "cipher_blklen e (dek_algo (cfx_dek cfx)) \<le> 16"
      by (auto simp: blocksize_of_def)
    have "fst (read_header e cfx fp) \<noteq> CDK_Inv_Algo"
      using r l
      by (auto simp: read_header_def Let_def lib_ok_def split: prod.splits option.splits)
    moreover have "fst (write_header e (encode_setup e cfx fp) out) = CDK_Success"
      if "fst (pkt_write_fp e (header_packet e (encode_setup e cfx fp))) = CDK_Success"
    proof -
      have r1: "8 \<le> blocksize_of e (encode_setup e cfx fp)"
        and r2: "blocksize_of e (encode_setup e cfx fp) \<le> 16"
        using b by (auto simp: bse)
      show ?thesis by (simp add: write_header_ok [OF r1 r2 l that])
    qed
    ultimately show ?thesis by blast
  qed
  from rej acc show ?thesis by blast
qed

theorem block_length_8_or_16_witness:
  "cipher_encode (sample_env 1) (sample_cfx True False 0) (new_file [1, 2, 3]) [5]
     = (CDK_Inv_Algo, encode_setup (sample_env 1) (sample_cfx True False 0) (new_file [1, 2, 3]),
        new_file [1, 2, 3], [5])
   \<and> cipher_decode (sample_env 1) (sample_cfx True False 0) (new_file [1, 2, 3]) [5]
     = (CDK_Inv_Algo, sample_cfx True False 0, new_file [1, 2, 3], [5])
   \<and> fst (read_header (sample_env 16) (sample_cfx True False 0) (new_file [1, 2, 3]))
       \<noteq> CDK_Inv_Algo
   \<and> fst (write_header (sample_env 16)
            (encode_setup (sample_env 16) (sample_cfx True False 0) (new_file [1, 2, 3])) [5])
       = CDK_Success"
proof -
  let ?cfx = "sample_cfx True False 0"
  let ?fp = "new_file [1, 2, 3]"
  have b1: "blocksize_of (sample_env 1) ?cfx = 1" and b16: "blocksize_of (sample_env 16) ?cfx = 16"
    by (simp_all add: blocksize_of_def sample_env_def)
  have m1: "blocksize_of (sample_env 1) ?cfx \<le> 8 \<or> 16 \<le> blocksize_of (sample_env 1) ?cfx"
    and m16: "blocksize_of (sample_env 16) ?cfx \<le> 8 \<or> 16 \<le> blocksize_of (sample_env 16) ?cfx"
    unfolding b1 b16 by simp_all
  have n1: "blocksize_of (sample_env 1) ?cfx \<noteq> 8 \<and> blocksize_of (sample_env 1) ?cfx \<noteq> 16"
    unfolding b1 by simp
  have a16: "(blocksize_of (sample_env 16) ?cfx = 8 \<or> blocksize_of (sample_env 16) ?cfx = 16)
      \<and> lib_ok (sample_env 16)"
    unfolding b16 using sample_lib_ok [of 16] by simp
  have w16: "fst (pkt_write_fp (sample_env 16)
      (header_packet (sample_env 16) (encode_setup (sample_env 16) ?cfx ?fp))) = CDK_Success"
    by (simp add: sample_env_def)
  from block_length_8_or_16 [OF m1, of ?fp "[5]"] n1
  have R: "cipher_encode (sample_env 1) ?cfx ?fp [5]
       = (CDK_Inv_Algo, encode_setup (sample_env 1) ?cfx ?fp, ?fp, [5])
     \<and> cipher_decode (sample_env 1) ?cfx ?fp [5] = (CDK_Inv_Algo, ?cfx, ?fp, [5])"
    by blast
  from block_length_8_or_16 [OF m16, of ?fp "[5]"] a16 w16
  have A: "fst (read_header (sample_env 16) ?cfx ?fp) \<noteq> CDK_Inv_Algo
     \<and> fst (write_header (sample_env 16) (encode_setup (sample_env 16) ?cfx ?fp) [5])
         = CDK_Success"
    by blast
  from R A show ?thesis by blast
qed

subsection \<open>The self-check of the prefix\<close>

text \<open>
  C4. When the block length is accepted, the library calls succeed, the declared
  length does not rule the prefix out and the input holds the \<open>blocksize + 2\<close> bytes
  of the prefix, a decrypted prefix whose last two bytes differ from its bytes
  \<open>blocksize - 2\<close> and \<open>blocksize - 1\<close> makes \<^verbatim>\<open>cipher_decode\<close> return
  \<open>CDK_Chksum_Error\<close>; the output is what it was, and the input has been read up to
  the end of the prefix and no further, so the body loop never ran.
\<close>

theorem prefix_self_check_rejects:
  assumes "8 \<le> blocksize_of e cfx" "blocksize_of e cfx \<le> 16" "lib_ok e"
    "\<not> (0 < cfx_datalen cfx \<and> cfx_datalen cfx < int (blocksize_of e cfx + 2))"
    "f_pos fp + (blocksize_of e cfx + 2) \<le> length (f_data fp)"
    "decrypted_prefix e cfx fp ! (blocksize_of e cfx - 2)
        \<noteq> decrypted_prefix e cfx fp ! blocksize_of e cfx
     \<or> decrypted_prefix e cfx fp ! (blocksize_of e cfx - 1)
        \<noteq> decrypted_prefix e cfx fp ! (blocksize_of e cfx + 1)"
  shows "fst (cipher_decode e cfx fp out) = CDK_Chksum_Error
     \<and> snd (snd (snd (cipher_decode e cfx fp out))) = out
     \<and> fst (snd (snd (cipher_decode e cfx fp out)))
         = fp\<lparr>f_pos := f_pos fp + (blocksize_of e cfx + 2)\<rparr>"
proof -
  from read_header_chksum [OF assms]
  obtain cfx1 where "read_header e cfx fp
      = (CDK_Chksum_Error, cfx1, fp\<lparr>f_pos := f_pos fp + (blocksize_of e cfx + 2)\<rparr>)"
    by (cases "read_header e cfx fp") auto
  then show ?thesis by (simp add: cipher_decode_def)
qed

theorem prefix_self_check_rejects_witness:
  "fst (cipher_decode (sample_env 16) (sample_cfx False False 2)
          (new_file [0, 1, 2, 3, 4, 5, 6, 7, 8, 9, 10, 11, 12, 13, 14, 15, 16, 17, 9, 9, 9])
          [5]) = CDK_Chksum_Error
   \<and> snd (snd (snd (cipher_decode (sample_env 16) (sample_cfx False False 2)
          (new_file [0, 1, 2, 3, 4, 5, 6, 7, 8, 9, 10, 11, 12, 13, 14, 15, 16, 17, 9, 9, 9])
          [5]))) = [5]
   \<and> f_pos (fst (snd (snd (cipher_decode (sample_env 16) (sample_cfx False False 2)
          (new_file [0, 1, 2, 3, 4, 5, 6, 7, 8, 9, 10, 11, 12, 13, 14, 15, 16, 17, 9, 9, 9])
          [5])))) = 18"
proof -
  let ?e = "sample_env 16"
  let ?cfx = "sample_cfx False False 2"
  let ?fp = "new_file [0, 1, 2, 3, 4, 5, 6, 7, 8, 9, 10, 11, 12, 13, 14, 15, 16, 17, 9, 9, 9]"
  have bs: "blocksize_of ?e ?cfx = 16"
    by (simp add: blocksize_of_def sample_env_def)
  have h1: "8 \<le> blocksize_of ?e ?cfx" and h2: "blocksize_of ?e ?cfx \<le> 16"
    by (simp_all add: bs)
  have h4: "\<not> (0 < cfx_datalen ?cfx \<and> cfx_datalen ?cfx < int (blocksize_of ?e ?cfx + 2))"
    by (simp add: sample_cfx_def)
  have h5: "f_pos ?fp + (blocksize_of ?e ?cfx + 2) \<le> length (f_data ?fp)"
    by (simp add: bs new_file_def)
  have "decrypted_prefix ?e ?cfx ?fp ! 14 \<noteq> decrypted_prefix ?e ?cfx ?fp ! 16"
    by code_simp
  then have h6: "decrypted_prefix ?e ?cfx ?fp ! (blocksize_of ?e ?cfx - 2)
        \<noteq> decrypted_prefix ?e ?cfx ?fp ! blocksize_of ?e ?cfx
     \<or> decrypted_prefix ?e ?cfx ?fp ! (blocksize_of ?e ?cfx - 1)
        \<noteq> decrypted_prefix ?e ?cfx ?fp ! (blocksize_of ?e ?cfx + 1)"
    by (simp add: bs)
  from prefix_self_check_rejects [OF h1 h2 sample_lib_ok h4 h5 h6, of "[5]"]
  show ?thesis by (simp add: bs new_file_def)
qed

subsection \<open>The header packet and the chunk budget\<close>

lemma header_packet_definite:
  assumes "\<not> blkmode_on cfx" "hdr_use_mdc e cfx"
  shows "header_packet e cfx =
     \<lparr>pkttype = CDK_PKT_ENCRYPTED_MDC, old_ctb = dek_rfc1991 (cfx_dek cfx),
      ed_len = (if cfx_datalen cfx \<noteq> 0 then cfx_datalen cfx + 22 else 0),
      ed_extralen = blocksize_of e cfx + 2, ed_mdc_method = GCRY_MD_SHA1\<rparr>"
  using assms by (auto simp: header_packet_def hdr_use_mdc_def blocksize_of_def Let_def)

lemma encode_setup_fields:
  "cfx_dek (encode_setup e cfx fp) = cfx_dek cfx
   \<and> cfx_datalen (encode_setup e cfx fp) = fp_get_length fp
   \<and> cfx_mdc (encode_setup e cfx fp) = cfx_mdc cfx
   \<and> blkmode_on (encode_setup e cfx fp)
       = (blkmode_on cfx \<and> int (BUFSIZE e) \<le> fp_get_length fp)"
  by (auto simp: encode_setup_def Let_def)

text \<open>
  C9, as amended. In block mode \<^verbatim>\<open>write_header\<close> sets the chunk budget to
  \<^verbatim>\<open>BUFSIZE\<close>, takes off the \<open>blocksize + 2\<close> bytes of the prefix and, with MDC
  active, takes off \<open>22 + 1\<close>: 22 for the MDC packet and 1 for the version byte.
\<close>

theorem chunk_budget_after_header:
  assumes "8 \<le> blocksize_of e cfx" "blocksize_of e cfx \<le> 16" "lib_ok e"
    "fst (pkt_write_fp e (header_packet e cfx)) = CDK_Success"
    "blkmode_on cfx" "hdr_use_mdc e cfx"
  shows "blkmode_nleft (fst (snd (write_header e cfx out)))
     = int (BUFSIZE e) - int (blocksize_of e cfx + 2) - 22 - 1"
  using assms(5,6) by (simp add: write_header_ok [OF assms(1-4)])

theorem chunk_budget_after_header_witness:
  "blkmode_nleft (fst (snd (write_header (sample_env 16) (sample_cfx False True 0) []))) = 8151"
proof -
  let ?e = "sample_env 16"
  let ?cfx = "sample_cfx False True 0"
  have bs: "blocksize_of ?e ?cfx = 16"
    by (simp add: blocksize_of_def sample_env_def)
  have h1: "8 \<le> blocksize_of ?e ?cfx" and h2: "blocksize_of ?e ?cfx \<le> 16"
    by (simp_all add: bs)
  have h4: "fst (pkt_write_fp ?e (header_packet ?e ?cfx)) = CDK_Success"
    by (simp add: sample_env_def)
  have h5: "blkmode_on ?cfx" by (simp add: sample_cfx_def)
  have h6: "hdr_use_mdc ?e ?cfx" by (simp add: hdr_use_mdc_def bs)
  have B: "BUFSIZE ?e = 8192" by (simp add: sample_env_def)
  from chunk_budget_after_header [OF h1 h2 sample_lib_ok h4 h5 h6, of "[]"]
  show ?thesis by (simp add: bs B)
qed

text \<open>
  C9 as stated fails: with a 16-byte block cipher and \<^verbatim>\<open>BUFSIZE\<close> 8192 the budget
  after the header is 8151, not 8192 - 18 - 22.
\<close>

theorem chunk_budget_not_22:
  "blkmode_nleft (fst (snd (write_header (sample_env 16) (sample_cfx False True 0) [])))
     \<noteq> 8192 - (16 + 2) - 22"
proof -
  let ?e = "sample_env 16"
  let ?cfx = "sample_cfx False True 0"
  have bs: "blocksize_of ?e ?cfx = 16"
    by (simp add: blocksize_of_def sample_env_def)
  have h1: "8 \<le> blocksize_of ?e ?cfx" and h2: "blocksize_of ?e ?cfx \<le> 16"
    by (simp_all add: bs)
  have h4: "fst (pkt_write_fp ?e (header_packet ?e ?cfx)) = CDK_Success"
    by (simp add: sample_env_def)
  have B: "BUFSIZE ?e = 8192" by (simp add: sample_env_def)
  have "blkmode_on ?cfx" by (simp add: sample_cfx_def)
  moreover have "hdr_use_mdc ?e ?cfx" by (simp add: hdr_use_mdc_def bs)
  ultimately show ?thesis
    by (simp add: write_header_ok [OF h1 h2 sample_lib_ok h4] bs B)
qed

subsection \<open>Encoding with block mode off; the MDC trailer\<close>

lemma encode_loop_nonblock:
  assumes "\<not> blkmode_on cfx" "0 < BUFSIZE e"
    and "f_eof fp \<longrightarrow> length (f_data fp) \<le> f_pos fp"
  shows "\<exists>fp'. cipher_encode_loop e cfx fp out len2 =
           (CDK_Success,
            cfx\<lparr>cfx_mdc := md_write_opt (cfx_mdc cfx) (drop (f_pos fp) (f_data fp)),
                cfx_hd := snd (gcry_cipher_encrypt e (cfx_hd cfx) (drop (f_pos fp) (f_data fp)))\<rparr>,
            fp',
            out @ fst (gcry_cipher_encrypt e (cfx_hd cfx) (drop (f_pos fp) (f_data fp))))"
  using assms
proof (induction "length (f_data fp) - f_pos fp" arbitrary: cfx fp out rule: less_induct)
  case less
  let ?R = "drop (f_pos fp) (f_data fp)"
  let ?B = "BUFSIZE e"
  show ?case
  proof (cases "f_eof fp")
    case True
    with less.prems have "?R = []" by simp
    with True show ?thesis
      by (subst cipher_encode_loop.simps) (simp add: feof_def md_write_opt_Nil)
  next
    case False
    show ?thesis
    proof (cases "?R = []")
      case True
      with False less.prems show ?thesis
        by (subst cipher_encode_loop.simps)
           (simp add: feof_def fread_def md_write_opt_Nil)
    next
      case nonempty: False
      define buf where "buf = take ?B ?R"
      define fp1 where "fp1 = fp\<lparr>f_pos := f_pos fp + length buf,
                                  f_eof := (f_eof fp \<or> length buf < ?B)\<rparr>"
      define cfx1 where "cfx1 = cfx\<lparr>cfx_mdc := md_write_opt (cfx_mdc cfx) buf,
                                    cfx_hd := snd (gcry_cipher_encrypt e (cfx_hd cfx) buf)\<rparr>"
      have rd: "fread ?B fp = (buf, fp1)"
        by (simp add: fread_def buf_def fp1_def Let_def)
      have bufne: "buf \<noteq> []" using nonempty less.prems(2) by (simp add: buf_def)
      have R1: "drop (f_pos fp1) (f_data fp1) = drop ?B ?R"
        by (simp add: fp1_def buf_def min_def add.commute) 
      have split: "?R = buf @ drop ?B ?R" by (simp only: buf_def append_take_drop_id)
      have dec: "length (f_data fp1) - f_pos fp1 < length (f_data fp) - f_pos fp"
        using fread_progress [OF rd bufne] .
      have inv1: "f_eof fp1 \<longrightarrow> length (f_data fp1) \<le> f_pos fp1"
        using False by (auto simp: fp1_def buf_def)
      have on1: "\<not> blkmode_on cfx1" using less.prems(1) by (simp add: cfx1_def)
      from less.hyps [OF dec on1 less.prems(2) inv1, of "out @ fst (gcry_cipher_encrypt e (cfx_hd cfx) buf)"]
      obtain fp' where IH: "cipher_encode_loop e cfx1 fp1
             (out @ fst (gcry_cipher_encrypt e (cfx_hd cfx) buf)) len2 =
           (CDK_Success,
            cfx1\<lparr>cfx_mdc := md_write_opt (cfx_mdc cfx1) (drop (f_pos fp1) (f_data fp1)),
                cfx_hd := snd (gcry_cipher_encrypt e (cfx_hd cfx1) (drop (f_pos fp1) (f_data fp1)))\<rparr>,
            fp',
            (out @ fst (gcry_cipher_encrypt e (cfx_hd cfx) buf))
               @ fst (gcry_cipher_encrypt e (cfx_hd cfx1) (drop (f_pos fp1) (f_data fp1))))"
        by blast
      have step: "cipher_encode_loop e cfx fp out len2 =
          cipher_encode_loop e cfx1 fp1 (out @ fst (gcry_cipher_encrypt e (cfx_hd cfx) buf)) len2"
        using False less.prems(1) rd bufne
        by (subst cipher_encode_loop.simps) (simp add: feof_def Let_def cfx1_def)
      have e1: "gcry_cipher_encrypt e (cfx_hd cfx) ?R =
         (fst (gcry_cipher_encrypt e (cfx_hd cfx) buf)
            @ fst (gcry_cipher_encrypt e (snd (gcry_cipher_encrypt e (cfx_hd cfx) buf)) (drop ?B ?R)),
          snd (gcry_cipher_encrypt e (snd (gcry_cipher_encrypt e (cfx_hd cfx) buf)) (drop ?B ?R)))"
        by (subst split, subst encrypt_append) simp
      have m1: "md_write_opt (cfx_mdc cfx) ?R = md_write_opt (md_write_opt (cfx_mdc cfx) buf) (drop ?B ?R)"
        by (subst split, subst md_write_opt_append) simp
      show ?thesis
        unfolding step IH R1 e1 m1
        by (rule exI [of _ fp']) (simp add: cfx1_def)
    qed
  qed
qed


lemma write_mdc_packet_ok:
  assumes "cfx_mdc cfx = Some md" "md_algo md = GCRY_MD_SHA1" "md_algo_dlen e GCRY_MD_SHA1 = 20"
  shows "write_mdc_packet e out cfx =
     (CDK_Success,
      cfx\<lparr>cfx_mdc := Some (gcry_md_write md [0xD3, 0x14]),
          cfx_hd := snd (gcry_cipher_encrypt e (cfx_hd cfx) (mdc_trailer e md []))\<rparr>,
      out @ fst (gcry_cipher_encrypt e (cfx_hd cfx) (mdc_trailer e md [])))"
  using assms
  by (simp add: write_mdc_packet_def Let_def gcry_md_read_def gcry_md_write_def mdc_trailer_def)

lemma mdc_trailer_shift:
  "mdc_trailer e (gcry_md_write md P) [] = mdc_trailer e md P"
  by (simp add: mdc_trailer_def gcry_md_write_def)

text \<open>
  With block mode off and a SHA-1 hash handle present, \<^verbatim>\<open>cipher_encode_file\<close>
  succeeds and writes the encrypted input followed by the encryption of the trailer,
  the cipher handle carried on from the body. The trailer is \<open>0xD3, 0x14\<close> followed by
  the digest of what was hashed before, the input and, last, the two bytes
  \<open>0xD3, 0x14\<close>; it is 22 bytes long, and only its encryption is written.
\<close>

lemma encode_file_trailer_definite:
  fixes e cfx fp out md
  defines "P \<equiv> drop (f_pos fp) (f_data fp)"
  defines "h1 \<equiv> snd (gcry_cipher_encrypt e (cfx_hd cfx) P)"
  assumes "\<not> blkmode_on cfx" "0 < BUFSIZE e" "f_stat_ok fp" "\<not> f_eof fp"
    "cfx_mdc cfx = Some md" "md_algo md = GCRY_MD_SHA1" "md_algo_dlen e GCRY_MD_SHA1 = 20"
    "length (md_hash e GCRY_MD_SHA1 (md_data md @ P @ [0xD3, 0x14])) = 20"
  shows "fst (cipher_encode_file e cfx fp out) = CDK_Success
     \<and> snd (snd (snd (cipher_encode_file e cfx fp out)))
         = out @ fst (gcry_cipher_encrypt e (cfx_hd cfx) P)
               @ fst (gcry_cipher_encrypt e h1 (mdc_trailer e md P))
     \<and> mdc_trailer e md P
         = [0xD3, 0x14] @ md_hash e GCRY_MD_SHA1 (md_data md @ P @ [0xD3, 0x14])
     \<and> length (fst (gcry_cipher_encrypt e h1 (mdc_trailer e md P))) = 22"
proof -
  let ?cfx1 = "cfx\<lparr>cfx_mdc := Some (gcry_md_write md P), cfx_hd := h1\<rparr>"
  from encode_loop_nonblock [OF assms(3,4), of fp out "fp_get_length fp"] assms(6)
  obtain fp' where "cipher_encode_loop e cfx fp out (fp_get_length fp) =
      (CDK_Success,
       cfx\<lparr>cfx_mdc := md_write_opt (cfx_mdc cfx) P, cfx_hd := h1\<rparr>,
       fp', out @ fst (gcry_cipher_encrypt e (cfx_hd cfx) P))"
    unfolding P_def h1_def by blast
  then have loop: "cipher_encode_loop e cfx fp out (fp_get_length fp) =
      (CDK_Success, ?cfx1, fp', out @ fst (gcry_cipher_encrypt e (cfx_hd cfx) P))"
    using assms(7) by (simp add: md_write_opt_def)
  have m1: "cfx_mdc ?cfx1 = Some (gcry_md_write md P)"
    by simp
  have a1: "md_algo (gcry_md_write md P) = GCRY_MD_SHA1"
    using assms(8) by (simp add: gcry_md_write_def)
  note w = write_mdc_packet_ok [OF m1 a1 assms(9), of "out @ fst (gcry_cipher_encrypt e (cfx_hd cfx) P)"]
  have len: "fp_get_length fp \<noteq> - 1"
    using assms(5) by (simp add: fp_get_length_def)
  have res: "cipher_encode_file e cfx fp out =
     (CDK_Success,
      ?cfx1\<lparr>cfx_mdc := Some (gcry_md_write (gcry_md_write md P) [0xD3, 0x14]),
          cfx_hd := snd (gcry_cipher_encrypt e h1 (mdc_trailer e md P))\<rparr>,
      fp',
      out @ fst (gcry_cipher_encrypt e (cfx_hd cfx) P)
          @ fst (gcry_cipher_encrypt e h1 (mdc_trailer e md P)))"
    using len by (simp add: cipher_encode_file_def loop w mdc_trailer_shift)
  have tr: "mdc_trailer e md P
         = [0xD3, 0x14] @ md_hash e GCRY_MD_SHA1 (md_data md @ P @ [0xD3, 0x14])"
    using assms(10) by (simp add: mdc_trailer_def)
  have l: "length (fst (gcry_cipher_encrypt e h1 (mdc_trailer e md P))) = 22"
    unfolding length_encrypt using assms(10) by (simp add: mdc_trailer_def)
  have r1: "fst (cipher_encode_file e cfx fp out) = CDK_Success"
    by (simp only: res fst_conv)
  have r2: "snd (snd (snd (cipher_encode_file e cfx fp out)))
         = out @ fst (gcry_cipher_encrypt e (cfx_hd cfx) P)
               @ fst (gcry_cipher_encrypt e h1 (mdc_trailer e md P))"
    by (simp only: res snd_conv)
  from r1 r2 tr l show ?thesis by blast
qed

subsection \<open>Decoding with block mode off\<close>

lemma mdc_verdict_shift:
  assumes "22 \<le> length ys"
  shows "mdc_verdict e (gcry_md_write md xs) ys = mdc_verdict e md (xs @ ys)"
proof -
  have a1: "length xs + length ys - 22 = length xs + (length ys - 22)"
    and a2: "length xs + length ys - 21 = length xs + (length ys - 21)"
    using assms by simp_all
  have i1: "(xs @ ys) ! (length xs + length ys - 22) = ys ! (length ys - 22)"
    and i2: "(xs @ ys) ! (length xs + length ys - 21) = ys ! (length ys - 21)"
    unfolding a1 a2 by (rule nth_append_length_plus)+
  have t: "take (length xs + length ys - 20) (xs @ ys) = xs @ take (length ys - 20) ys"
    using assms by simp
  have d: "drop (length xs + length ys - 20) (xs @ ys) = drop (length ys - 20) ys"
    using assms by simp
  show ?thesis
    using assms
    by (simp add: mdc_verdict_def finalize_mdc_def Let_def i1 i2 t d gcry_md_write_def
          gcry_md_read_def)
qed

lemma finalize_mdc_short:
  "md_algo_dlen e GCRY_MD_SHA1 = 20 \<Longrightarrow> nread < 22 \<Longrightarrow>
     fst (finalize_mdc e md buf nread) = Memory_Fault"
  by (simp add: finalize_mdc_def)

lemma decode_block_mid:
  assumes "cfx_mdc cfx = Some md"
  shows "decode_block e cfx False raw out =
    (CDK_Success,
     cfx\<lparr>cfx_hd := snd (gcry_cipher_decrypt e (cfx_hd cfx) raw),
         cfx_mdc := Some (gcry_md_write md (fst (gcry_cipher_decrypt e (cfx_hd cfx) raw)))\<rparr>,
     out @ fst (gcry_cipher_decrypt e (cfx_hd cfx) raw))"
  using assms by (simp add: decode_block_def Let_def)

lemma decode_block_last:
  assumes "cfx_mdc cfx = Some md"
  shows "fst (decode_block e cfx True raw out)
       = mdc_verdict e md (fst (gcry_cipher_decrypt e (cfx_hd cfx) raw))
     \<and> snd (snd (decode_block e cfx True raw out))
       = (if mdc_verdict e md (fst (gcry_cipher_decrypt e (cfx_hd cfx) raw)) = CDK_Success
          then out @ take (length raw - 22) (fst (gcry_cipher_decrypt e (cfx_hd cfx) raw))
          else out)"
  using assms
  by (simp add: decode_block_def Let_def mdc_verdict_def length_decrypt split: prod.splits)

lemma decode_rounds_step:
  assumes "length D1 = BUFSIZE e"
  shows "decode_rounds e md (D1 @ D2)
     = (fst (decode_rounds e (gcry_md_write md D1) D2),
        D1 @ snd (decode_rounds e (gcry_md_write md D1) D2))"
proof -
  define r where "r = length D2 mod BUFSIZE e"
  have r: "length (D1 @ D2) mod BUFSIZE e = r" using assms by (simp add: r_def)
  have r2: "length D2 mod BUFSIZE e = r" by (simp add: r_def)
  have le: "r \<le> length D2" unfolding r_def by (rule mod_less_eq_dividend)
  then have "length (D1 @ D2) - r = length D1 + (length D2 - r)" by simp
  then have t1: "take (length (D1 @ D2) - r) (D1 @ D2) = D1 @ take (length D2 - r) D2"
    by (simp only: take_append take_all_iff) simp
  show ?thesis
  proof (cases "r < 22")
    case True
    then show ?thesis
      unfolding decode_rounds_def Let_def r r2 t1 by simp
  next
    case False
    with le have 22: "22 \<le> length D2" by simp
    then have "length (D1 @ D2) - 22 = length D1 + (length D2 - 22)" by simp
    then have t2: "take (length (D1 @ D2) - 22) (D1 @ D2) = D1 @ take (length D2 - 22) D2"
      by (simp only: take_append take_all_iff) simp
    from False show ?thesis
      unfolding decode_rounds_def Let_def r r2 t1 t2 mdc_verdict_shift [OF 22] by simp
  qed
qed

lemma decode_block_on:
  "blkmode_on (fst (snd (decode_block e cfx b raw out))) = blkmode_on cfx"
  by (simp add: decode_block_def Let_def split: option.splits prod.splits)

lemma decode_file_nonblock:
  assumes "\<not> blkmode_on cfx" "0 < BUFSIZE e" "cfx_mdc cfx = Some md"
    "md_algo_dlen e GCRY_MD_SHA1 = 20"
    "f_eof fp \<longrightarrow> length (f_data fp) \<le> f_pos fp"
  shows "fst (cipher_decode_file e cfx fp out)
       = fst (decode_rounds e md
                (fst (gcry_cipher_decrypt e (cfx_hd cfx) (drop (f_pos fp) (f_data fp)))))
     \<and> snd (snd (snd (cipher_decode_file e cfx fp out)))
       = out @ snd (decode_rounds e md
                (fst (gcry_cipher_decrypt e (cfx_hd cfx) (drop (f_pos fp) (f_data fp)))))"
  using assms
proof (induction "length (f_data fp) - f_pos fp" arbitrary: cfx fp out md rule: less_induct)
  case less
  let ?R = "drop (f_pos fp) (f_data fp)"
  let ?B = "BUFSIZE e"
  let ?h = "cfx_hd cfx"
  show ?case
  proof (cases "f_eof fp")
    case True
    with less.prems have "?R = []" by simp
    with True show ?thesis
      by (subst (1 2) cipher_decode_file.simps) (simp add: feof_def decode_rounds_def)
  next
    case noeof: False
    define raw where "raw = take ?B ?R"
    define fp1 where "fp1 = fp\<lparr>f_pos := f_pos fp + length raw,
                                f_eof := (f_eof fp \<or> length raw < ?B)\<rparr>"
    have rd: "fread ?B fp = (raw, fp1)"
      by (simp add: fread_def raw_def fp1_def Let_def)
    have lraw: "length raw \<le> ?B" by (simp add: raw_def)
    show ?thesis
    proof (cases "?R = []")
      case True
      then have "raw = []" by (simp add: raw_def)
      with noeof less.prems(1) rd True show ?thesis
        by (subst (1 2) cipher_decode_file.simps)
           (simp add: feof_def Let_def decode_rounds_def)
    next
      case nonempty: False
      then have rawne: "raw \<noteq> []" using less.prems(2) by (simp add: raw_def)
      show ?thesis
      proof (cases "length ?R < ?B")
        case short: True
        then have raw_all: "raw = ?R" by (simp add: raw_def)
        have eof1: "feof fp1" using short by (simp add: feof_def fp1_def raw_all)
        define D where "D = fst (gcry_cipher_decrypt e ?h ?R)"
        have lD: "length D = length ?R" unfolding D_def by (rule length_decrypt)
        have m: "length D mod ?B = length D" using short lD by simp
        have nz: "D \<noteq> []" using nonempty lD by auto
        have short22: "length D < 22 \<Longrightarrow> mdc_verdict e md D = Memory_Fault"
          using finalize_mdc_short [OF less.prems(4), of "length D" md D]
          by (simp add: mdc_verdict_def)
        have spec: "decode_rounds e md D =
           (if mdc_verdict e md D = CDK_Success then (CDK_Success, take (length D - 22) D)
            else (mdc_verdict e md D, []))"
          using short22 by (cases "length D < 22") (simp_all add: decode_rounds_def Let_def m nz)
        note db = decode_block_last [OF less.prems(3), of e ?R out, folded D_def]
        obtain rc cfx1 out1 where dbe: "decode_block e cfx True ?R out = (rc, cfx1, out1)"
          by (cases "decode_block e cfx True ?R out") auto
        from decode_block_on [of e cfx True ?R out] dbe less.prems(1)
        have on1: "\<not> blkmode_on cfx1" by simp
        from db dbe have rc: "rc = mdc_verdict e md D"
          and out1: "out1 = (if mdc_verdict e md D = CDK_Success
                             then out @ take (length ?R - 22) D else out)"
          by simp_all
        have step: "cipher_decode_file e cfx fp out =
            (if rc \<noteq> CDK_Success then (rc, cfx1, fp1, out1)
             else (CDK_Success, cfx1, fp1, out1))"
          using noeof less.prems(1) rd rawne lraw eof1 dbe on1
          by (subst cipher_decode_file.simps, subst (2) cipher_decode_file.simps)
             (auto simp: feof_def Let_def raw_all split: prod.splits)
        show ?thesis
          unfolding step D_def [symmetric] spec
          by (simp add: rc out1 lD)
      next
        case long: False
        then have lr: "length raw = ?B" by (simp add: raw_def)
        have noeof1: "\<not> f_eof fp1" using noeof lr by (simp add: fp1_def)
        let ?D1 = "fst (gcry_cipher_decrypt e ?h raw)"
        let ?h1 = "snd (gcry_cipher_decrypt e ?h raw)"
        define cfx1 where "cfx1 = cfx\<lparr>cfx_hd := ?h1, cfx_mdc := Some (gcry_md_write md ?D1)\<rparr>"
        have R1: "drop (f_pos fp1) (f_data fp1) = drop ?B ?R"
          by (simp add: fp1_def lr add.commute)
        have split: "?R = raw @ drop ?B ?R" by (simp only: raw_def append_take_drop_id)
        have dec: "length (f_data fp1) - f_pos fp1 < length (f_data fp) - f_pos fp"
          using fread_progress [OF rd rawne] .
        have step: "cipher_decode_file e cfx fp out = cipher_decode_file e cfx1 fp1 (out @ ?D1)"
          using noeof less.prems(1) rd rawne lraw noeof1
          by (subst cipher_decode_file.simps)
             (simp add: feof_def Let_def decode_block_mid [OF less.prems(3)] cfx1_def)
        have on1: "\<not> blkmode_on cfx1" using less.prems(1) by (simp add: cfx1_def)
        have m1: "cfx_mdc cfx1 = Some (gcry_md_write md ?D1)" by (simp add: cfx1_def)
        have inv1: "f_eof fp1 \<longrightarrow> length (f_data fp1) \<le> f_pos fp1" using noeof1 by simp
        note IH = less.hyps [OF dec on1 less.prems(2) m1 less.prems(4) inv1, of "out @ ?D1"]
        have h1: "cfx_hd cfx1 = ?h1" by (simp add: cfx1_def)
        have D: "fst (gcry_cipher_decrypt e ?h ?R)
             = ?D1 @ fst (gcry_cipher_decrypt e ?h1 (drop ?B ?R))"
          by (subst split, subst decrypt_append) simp
        have lD1: "length ?D1 = ?B" by (simp add: length_decrypt lr)
        show ?thesis
          unfolding step D decode_rounds_step [OF lD1]
          using IH by (simp add: R1 h1)
      qed
    qed
  qed
qed

subsection \<open>The trailer check\<close>

lemma mdc_verdict_explicit:
  assumes "22 \<le> length D" "md_algo md = GCRY_MD_SHA1" "md_algo_dlen e GCRY_MD_SHA1 = 20"
  shows "mdc_verdict e md D =
     (if take 2 (trailer_of D) \<noteq> [0xD3, 0x14] then CDK_Inv_Packet
      else if trailer_of D \<noteq> mdc_trailer e md (body_of D) then CDK_Bad_MDC
      else CDK_Success)"
proof -
  define B where "B = take (length D - 22) D"
  define T where "T = drop (length D - 22) D"
  have lT: "length T = 22" using assms(1) by (simp add: T_def)
  have lB: "length B = length D - 22" by (simp add: B_def)
  have D: "D = B @ T" by (simp add: B_def T_def)
  from lT obtain t0 t1 T2 where T: "T = t0 # t1 # T2" and lT2: "length T2 = 20"
    by (cases T; cases "tl T") auto
  have n: "length D = length B + 22" using D lT by simp
  have i0: "D ! (length B + 22 - 20 - 2) = t0" and i1: "D ! (length B + 22 - 20 - 1) = t1"
    by (simp_all add: D T nth_append)
  have tk: "take (length B + 22 - 20) D = B @ [t0, t1]"
    by (simp add: D T)
  have dr: "drop (length B + 22 - 20) D = T2"
    by (simp add: D T)
  have tr: "trailer_of D = T" and bo: "body_of D = B"
    by (simp_all add: trailer_of_def body_of_def T_def B_def)
  show ?thesis
    unfolding mdc_verdict_def finalize_mdc_def Let_def n assms(3) i0 i1 tk dr tr bo
    using assms(2) lT2
    by (auto simp: T mdc_trailer_def gcry_md_write_def gcry_md_read_def)
qed


text \<open>
  \<^verbatim>\<open>cipher_decode_file\<close> with block mode off and a SHA-1 hash handle \<open>md\<close> present,
  when the last round of \<^verbatim>\<open>BUFSIZE\<close>-sized reads holds at least 22 bytes: the last 22
  decrypted bytes are checked against the trailer computed from \<open>md\<close> and the bytes
  before them, and are kept out of the output.
\<close>

lemma decode_file_trailer_check:
  assumes "\<not> blkmode_on cfx" "0 < BUFSIZE e" "cfx_mdc cfx = Some md"
    "md_algo md = GCRY_MD_SHA1" "md_algo_dlen e GCRY_MD_SHA1 = 20" "\<not> f_eof fp"
    "22 \<le> length (drop (f_pos fp) (f_data fp)) mod BUFSIZE e"
    "D = fst (gcry_cipher_decrypt e (cfx_hd cfx) (drop (f_pos fp) (f_data fp)))"
  shows "fst (cipher_decode_file e cfx fp out)
       = (if take 2 (trailer_of D) \<noteq> [0xD3, 0x14] then CDK_Inv_Packet
          else if trailer_of D \<noteq> mdc_trailer e md (body_of D) then CDK_Bad_MDC
          else CDK_Success)
     \<and> snd (snd (snd (cipher_decode_file e cfx fp out)))
       = out @ (if fst (cipher_decode_file e cfx fp out) = CDK_Success then body_of D
                else take (length D - length D mod BUFSIZE e) D)"
proof -
  have inv: "f_eof fp \<longrightarrow> length (f_data fp) \<le> f_pos fp" using assms(6) by simp
  note L = decode_file_nonblock [OF assms(1,2,3,5) inv, of out, folded assms(8)]
  have lD: "length D = length (drop (f_pos fp) (f_data fp))"
    unfolding assms(8) by (rule length_decrypt)
  define r where "r = length D mod BUFSIZE e"
  have r22: "22 \<le> r" using assms(7) by (simp add: r_def lD)
  have "r \<le> length D" unfolding r_def by (rule mod_less_eq_dividend)
  with r22 have 22: "22 \<le> length D" by simp
  have spec: "decode_rounds e md D =
     (if mdc_verdict e md D = CDK_Success then (CDK_Success, take (length D - 22) D)
      else (mdc_verdict e md D, take (length D - r) D))"
    using r22 by (simp add: decode_rounds_def Let_def r_def [symmetric])
  note V = mdc_verdict_explicit [OF 22 assms(4,5)]
  show ?thesis
    unfolding L [THEN conjunct1] L [THEN conjunct2] spec r_def [symmetric]
    by (simp add: V body_of_def)
qed

text \<open>
  When the last round holds fewer than 22 bytes, \<^verbatim>\<open>finalize_mdc\<close> is still called
  and indexes outside the bytes read.
\<close>

lemma short_last_read_faults:
  assumes "\<not> blkmode_on cfx" "0 < BUFSIZE e" "cfx_mdc cfx = Some md"
    "md_algo_dlen e GCRY_MD_SHA1 = 20" "\<not> f_eof fp"
    "0 < length (drop (f_pos fp) (f_data fp)) mod BUFSIZE e"
    "length (drop (f_pos fp) (f_data fp)) mod BUFSIZE e < 22"
  shows "fst (cipher_decode_file e cfx fp out) = Memory_Fault"
proof -
  have inv: "f_eof fp \<longrightarrow> length (f_data fp) \<le> f_pos fp" using assms(5) by simp
  note L = decode_file_nonblock [OF assms(1,2,3,4) inv, of out]
  define D where "D = fst (gcry_cipher_decrypt e (cfx_hd cfx) (drop (f_pos fp) (f_data fp)))"
  have lD: "length D = length (drop (f_pos fp) (f_data fp))"
    unfolding D_def by (rule length_decrypt)
  have "fst (decode_rounds e md D) = Memory_Fault"
    using assms(6,7) unfolding lD [symmetric] by (simp add: decode_rounds_def Let_def)
  then show ?thesis unfolding L [THEN conjunct1] D_def .
qed

lemma sample_open_facts:
  "\<not> blkmode_on (sample_open_cfx bl)" "0 < BUFSIZE (sample_env bl)"
  "cfx_mdc (sample_open_cfx bl) = Some (gcry_md_open GCRY_MD_SHA1)"
  "md_algo (gcry_md_open GCRY_MD_SHA1) = GCRY_MD_SHA1"
  "md_algo_dlen (sample_env bl) GCRY_MD_SHA1 = 20"
  "\<not> f_eof (new_file bs)" "BUFSIZE (sample_env bl) = 8192"
  by (simp_all add: sample_open_cfx_def sample_cfx_def sample_env_def gcry_md_open_def
        new_file_def)

text \<open>
  C10 fails on the code: a body of 10 bytes reaches \<^verbatim>\<open>finalize_mdc\<close> with
  \<open>nread = 10\<close>, and the index \<open>nread - 22\<close> is outside the buffer.
\<close>

theorem finalize_mdc_reached_with_10_bytes:
  "fst (cipher_decode_file (sample_env 16) (sample_open_cfx 16)
          (new_file [1, 2, 3, 4, 5, 6, 7, 8, 9, 10]) []) = Memory_Fault"
  by (rule short_last_read_faults [OF sample_open_facts(1,2,3,5,6)])
     (simp_all add: sample_open_facts new_file_def)

subsection \<open>Encoding and decoding in sequence\<close>

lemma length_header_prefix: "length (header_prefix e n) = n + 2"
  by (simp add: header_prefix_def Let_def)

lemma header_prefix_check:
  "2 \<le> n \<Longrightarrow> header_prefix e n ! (n - 2) = header_prefix e n ! n
     \<and> header_prefix e n ! (n - 1) = header_prefix e n ! (n + 1)"
  by (simp add: header_prefix_def Let_def nth_append)

lemma read_header_ok:
  assumes "8 \<le> blocksize_of e cfx" "blocksize_of e cfx \<le> 16" "lib_ok e"
    "\<not> (0 < cfx_datalen cfx \<and> cfx_datalen cfx < int (blocksize_of e cfx + 2))"
    "f_pos fp + (blocksize_of e cfx + 2) \<le> length (f_data fp)"
    "decrypted_prefix e cfx fp ! (blocksize_of e cfx - 2)
        = decrypted_prefix e cfx fp ! blocksize_of e cfx"
    "decrypted_prefix e cfx fp ! (blocksize_of e cfx - 1)
        = decrypted_prefix e cfx fp ! (blocksize_of e cfx + 1)"
    "cfx_mdc_method cfx \<noteq> 0" "\<not> blkmode_on cfx"
  shows "read_header e cfx fp =
    (CDK_Success,
     cfx\<lparr>cfx_mdc := Some (gcry_md_write (gcry_md_open (cfx_mdc_method cfx))
                         (decrypted_prefix e cfx fp)),
         cfx_hd := gcry_cipher_sync (snd (gcry_cipher_decrypt e
                     (open_cipher e (cfx_dek cfx) False)
                     (take (blocksize_of e cfx + 2) (drop (f_pos fp) (f_data fp)))))\<rparr>,
     fp\<lparr>f_pos := f_pos fp + (blocksize_of e cfx + 2)\<rparr>)"
  using assms read_bytes_take [of fp "blocksize_of e cfx + 2"]
  by (cases cfx)
     (auto simp: read_header_def Let_def lib_ok_def open_cipher_def blocksize_of_def
        decrypted_prefix_def md_write_opt_def)

lemma cipher_decode_of_encoded:
  assumes "8 \<le> blocksize_of e cfx" "blocksize_of e cfx \<le> 16" "lib_ok e"
    "\<not> (0 < cfx_datalen cfx \<and> cfx_datalen cfx < int (blocksize_of e cfx + 2))"
    "cfx_mdc_method cfx = GCRY_MD_SHA1" "\<not> blkmode_on cfx"
    "0 < BUFSIZE e" "md_algo_dlen e GCRY_MD_SHA1 = 20"
    "f_pos fp = 0" "\<not> f_eof fp"
    "pre = header_prefix e (blocksize_of e cfx)"
    "h0 = open_cipher e (cfx_dek cfx) False"
    "h1 = gcry_cipher_sync (snd (gcry_cipher_encrypt e h0 pre))"
    "f_data fp = fst (gcry_cipher_encrypt e h0 pre) @ fst (gcry_cipher_encrypt e h1 X)"
  shows "fst (cipher_decode e cfx fp out)
       = fst (decode_rounds e (gcry_md_write (gcry_md_open GCRY_MD_SHA1) pre) X)
     \<and> snd (snd (snd (cipher_decode e cfx fp out)))
       = out @ snd (decode_rounds e (gcry_md_write (gcry_md_open GCRY_MD_SHA1) pre) X)"
proof -
  let ?bs = "blocksize_of e cfx"
  let ?C0 = "fst (gcry_cipher_encrypt e h0 pre)"
  let ?C1 = "fst (gcry_cipher_encrypt e h1 X)"
  have lpre: "length pre = ?bs + 2" by (simp add: assms(11) length_header_prefix)
  have lC0: "length ?C0 = ?bs + 2" by (simp add: length_encrypt lpre)
  have tk: "take (?bs + 2) (drop (f_pos fp) (f_data fp)) = ?C0"
    by (simp add: assms(9,14) lC0)
  have m0: "(cfx_mdc_method cfx = 0) = False" by (simp add: assms(5) GCRY_MD_SHA1_def)
  have dp: "decrypted_prefix e cfx fp = pre"
    unfolding decrypted_prefix_def tk m0 assms(12) [symmetric] by (simp add: decrypt_encrypt)
  have avail: "f_pos fp + (?bs + 2) \<le> length (f_data fp)"
    by (simp add: assms(9,14) lC0)
  have two: "2 \<le> ?bs" using assms(1) by simp
  note chk = header_prefix_check [OF two, of e, folded assms(11)]
  have mne: "cfx_mdc_method cfx \<noteq> 0" by (simp add: assms(5) GCRY_MD_SHA1_def)
  have de: "gcry_cipher_decrypt e (open_cipher e (cfx_dek cfx) False) ?C0
      = (pre, snd (gcry_cipher_encrypt e h0 pre))"
    unfolding assms(12) [symmetric] by (rule decrypt_encrypt)
  note rh = read_header_ok [OF assms(1,2,3,4) avail _ _ mne assms(6), unfolded dp,
      OF chk [THEN conjunct1] chk [THEN conjunct2], unfolded tk de snd_conv
      assms(13) [symmetric]]
  let ?cfx1 = "cfx\<lparr>cfx_mdc := Some (gcry_md_write (gcry_md_open (cfx_mdc_method cfx)) pre),
         cfx_hd := h1\<rparr>"
  let ?fp1 = "fp\<lparr>f_pos := f_pos fp + (?bs + 2)\<rparr>"
  have hd1: "cfx_hd ?cfx1 = h1" by simp
  have rest: "drop (f_pos ?fp1) (f_data ?fp1) = ?C1"
    by (simp add: assms(9,14) lC0)
  have D: "fst (gcry_cipher_decrypt e (cfx_hd ?cfx1) (drop (f_pos ?fp1) (f_data ?fp1))) = X"
    unfolding hd1 rest by (simp add: decrypt_encrypt)
  have on1: "\<not> blkmode_on ?cfx1" using assms(6) by simp
  have md1: "cfx_mdc ?cfx1 = Some (gcry_md_write (gcry_md_open GCRY_MD_SHA1) pre)"
    by (simp add: assms(5))
  have inv1: "f_eof ?fp1 \<longrightarrow> length (f_data ?fp1) \<le> f_pos ?fp1" using assms(10) by simp
  note L = decode_file_nonblock [OF on1 assms(7) md1 assms(8) inv1, of out, unfolded D]
  have cd: "cipher_decode e cfx fp out = cipher_decode_file e ?cfx1 ?fp1 out"
    by (simp add: cipher_decode_def rh)
  show ?thesis unfolding cd by (rule L)
qed

lemma encode_file_mdc_out:
  assumes "\<not> blkmode_on cfx" "0 < BUFSIZE e" "f_stat_ok fp" "\<not> f_eof fp"
    "cfx_mdc cfx = Some md" "md_algo md = GCRY_MD_SHA1" "md_algo_dlen e GCRY_MD_SHA1 = 20"
    "P = drop (f_pos fp) (f_data fp)"
  shows "fst (cipher_encode_file e cfx fp out) = CDK_Success
     \<and> snd (snd (snd (cipher_encode_file e cfx fp out)))
         = out @ fst (gcry_cipher_encrypt e (cfx_hd cfx) (P @ mdc_trailer e md P))"
proof -
  let ?h1 = "snd (gcry_cipher_encrypt e (cfx_hd cfx) P)"
  let ?cfx1 = "cfx\<lparr>cfx_mdc := Some (gcry_md_write md P), cfx_hd := ?h1\<rparr>"
  have inv: "f_eof fp \<longrightarrow> length (f_data fp) \<le> f_pos fp" using assms(4) by simp
  from encode_loop_nonblock [OF assms(1,2) inv, of out "fp_get_length fp"]
  obtain fp' where "cipher_encode_loop e cfx fp out (fp_get_length fp) =
      (CDK_Success,
       cfx\<lparr>cfx_mdc := md_write_opt (cfx_mdc cfx) P, cfx_hd := ?h1\<rparr>,
       fp', out @ fst (gcry_cipher_encrypt e (cfx_hd cfx) P))"
    unfolding assms(8) by blast
  then have loop: "cipher_encode_loop e cfx fp out (fp_get_length fp) =
      (CDK_Success, ?cfx1, fp', out @ fst (gcry_cipher_encrypt e (cfx_hd cfx) P))"
    using assms(5) by (simp add: md_write_opt_def)
  have m1: "cfx_mdc ?cfx1 = Some (gcry_md_write md P)" by simp
  have a1: "md_algo (gcry_md_write md P) = GCRY_MD_SHA1"
    using assms(6) by (simp add: gcry_md_write_def)
  note w = write_mdc_packet_ok [OF m1 a1 assms(7),
      of "out @ fst (gcry_cipher_encrypt e (cfx_hd cfx) P)"]
  have len: "fp_get_length fp \<noteq> - 1"
    using assms(3) by (simp add: fp_get_length_def)
  have res: "cipher_encode_file e cfx fp out =
     (CDK_Success,
      ?cfx1\<lparr>cfx_mdc := Some (gcry_md_write (gcry_md_write md P) [0xD3, 0x14]),
          cfx_hd := snd (gcry_cipher_encrypt e ?h1 (mdc_trailer e md P))\<rparr>,
      fp',
      out @ fst (gcry_cipher_encrypt e (cfx_hd cfx) P)
          @ fst (gcry_cipher_encrypt e ?h1 (mdc_trailer e md P)))"
    using len by (simp add: cipher_encode_file_def loop w mdc_trailer_shift)
  show ?thesis
    unfolding res by (simp add: encrypt_append)
qed

lemma cipher_encode_definite_mdc:
  assumes "8 \<le> blocksize_of e cfx" "blocksize_of e cfx \<le> 16" "lib_ok e"
    "fst (pkt_write_fp e (header_packet e (encode_setup e cfx fp))) = CDK_Success"
    "hdr_use_mdc e cfx" "\<not> blkmode_on (encode_setup e cfx fp)"
    "0 < BUFSIZE e" "md_algo_dlen e GCRY_MD_SHA1 = 20"
    "f_pos fp = 0" "\<not> f_eof fp" "f_stat_ok fp"
    "pre = header_prefix e (blocksize_of e cfx)"
    "h0 = open_cipher e (cfx_dek cfx) False"
    "h1 = gcry_cipher_sync (snd (gcry_cipher_encrypt e h0 pre))"
    "md0 = gcry_md_write (gcry_md_open GCRY_MD_SHA1) pre"
  shows "fst (cipher_encode e cfx fp out) = CDK_Success
     \<and> snd (snd (snd (cipher_encode e cfx fp out)))
       = (out @ snd (pkt_write_fp e (header_packet e (encode_setup e cfx fp)))
              @ fst (gcry_cipher_encrypt e h0 pre))
         @ fst (gcry_cipher_encrypt e h1 (f_data fp @ mdc_trailer e md0 (f_data fp)))"
proof -
  let ?cs = "encode_setup e cfx fp"
  have bs: "blocksize_of e ?cs = blocksize_of e cfx"
    by (simp add: blocksize_of_def encode_setup_fields)
  have u: "hdr_use_mdc e ?cs"
    using assms(5) by (simp add: hdr_use_mdc_def bs) (simp add: encode_setup_fields)
  have dk: "cfx_dek ?cs = cfx_dek cfx" by (simp add: encode_setup_fields)
  have r1: "8 \<le> blocksize_of e ?cs" and r2: "blocksize_of e ?cs \<le> 16"
    using assms(1,2) by (simp_all add: bs)
  note wh = write_header_ok [OF r1 r2 assms(3,4), of out, unfolded bs dk]
  obtain cfx3 out1 where whe: "write_header e ?cs out = (CDK_Success, cfx3, out1)"
    and on3: "\<not> blkmode_on cfx3" and hd3: "cfx_hd cfx3 = h1" and md3: "cfx_mdc cfx3 = Some md0"
    and o1: "out1 = out @ snd (pkt_write_fp e (header_packet e ?cs))
                        @ fst (gcry_cipher_encrypt e h0 pre)"
    using wh u assms(6) by (simp add: assms(12,13,14,15))
  have a0: "md_algo md0 = GCRY_MD_SHA1"
    by (simp add: assms(15) gcry_md_write_def gcry_md_open_def)
  have P: "f_data fp = drop (f_pos fp) (f_data fp)" by (simp add: assms(9))
  note ef = encode_file_mdc_out [OF on3 assms(7) assms(11) assms(10) md3 a0 assms(8) P,
      of out1, unfolded hd3]
  have ce: "cipher_encode e cfx fp out = cipher_encode_file e cfx3 fp out1"
    by (simp add: cipher_encode_def whe)
  show ?thesis unfolding ce using ef by (simp add: o1)
qed

lemma roundtrip_definite_mdc:
  assumes "8 \<le> blocksize_of e cfx" "blocksize_of e cfx \<le> 16" "lib_ok e"
    "fst (pkt_write_fp e (header_packet e (encode_setup e cfx fp))) = CDK_Success"
    "hdr_use_mdc e cfx" "\<not> blkmode_on (encode_setup e cfx fp)"
    "0 < BUFSIZE e" "md_algo_dlen e GCRY_MD_SHA1 = 20"
    "f_pos fp = 0" "\<not> f_eof fp" "f_stat_ok fp"
    "cfx_dek cfxd = cfx_dek cfx" "cfx_mdc_method cfxd = GCRY_MD_SHA1" "\<not> blkmode_on cfxd"
    "\<not> (0 < cfx_datalen cfxd \<and> cfx_datalen cfxd < int (blocksize_of e cfx + 2))"
    "n = length (out @ snd (pkt_write_fp e (header_packet e (encode_setup e cfx fp))))"
  shows "fst (cipher_encode e cfx fp out) = CDK_Success
     \<and> fst (cipher_decode e cfxd
              (new_file (drop n (snd (snd (snd (cipher_encode e cfx fp out)))))) outd)
         = fst (decode_rounds e (sent_md e cfx)
                  (f_data fp @ mdc_trailer e (sent_md e cfx) (f_data fp)))
     \<and> snd (snd (snd (cipher_decode e cfxd
              (new_file (drop n (snd (snd (snd (cipher_encode e cfx fp out)))))) outd)))
         = outd @ snd (decode_rounds e (sent_md e cfx)
                  (f_data fp @ mdc_trailer e (sent_md e cfx) (f_data fp)))"
proof -
  define pre where "pre = header_prefix e (blocksize_of e cfx)"
  define h0 where "h0 = open_cipher e (cfx_dek cfx) False"
  define h1 where "h1 = gcry_cipher_sync (snd (gcry_cipher_encrypt e h0 pre))"
  have md0: "sent_md e cfx = gcry_md_write (gcry_md_open GCRY_MD_SHA1) pre"
    by (simp add: sent_md_def pre_def)
  note E = cipher_encode_definite_mdc [OF assms(1-11) pre_def h0_def h1_def md0, of out]
  let ?X = "f_data fp @ mdc_trailer e (sent_md e cfx) (f_data fp)"
  have body: "drop n (snd (snd (snd (cipher_encode e cfx fp out))))
      = fst (gcry_cipher_encrypt e h0 pre) @ fst (gcry_cipher_encrypt e h1 ?X)"
    unfolding E [THEN conjunct2] assms(16) by simp
  have bsd: "blocksize_of e cfxd = blocksize_of e cfx"
    by (simp add: blocksize_of_def assms(12))
  have d1: "8 \<le> blocksize_of e cfxd" and d2: "blocksize_of e cfxd \<le> 16"
    and d4: "\<not> (0 < cfx_datalen cfxd \<and> cfx_datalen cfxd < int (blocksize_of e cfxd + 2))"
    and dpre: "pre = header_prefix e (blocksize_of e cfxd)"
    and dh0: "h0 = open_cipher e (cfx_dek cfxd) False"
    using assms(1,2,15) by (simp_all add: bsd pre_def h0_def assms(12))
  let ?fpd = "new_file (drop n (snd (snd (snd (cipher_encode e cfx fp out)))))"
  have f1: "f_pos ?fpd = 0" and f2: "\<not> f_eof ?fpd"
    and f3: "f_data ?fpd = fst (gcry_cipher_encrypt e h0 pre) @ fst (gcry_cipher_encrypt e h1 ?X)"
    by (simp_all add: new_file_def body)
  note D = cipher_decode_of_encoded [OF d1 d2 assms(3) d4 assms(13,14,7,8) f1 f2 dpre dh0 h1_def f3,
      of outd, folded md0]
  from E D show ?thesis by blast
qed

lemma sample_roundtrip_facts:
  "blocksize_of (sample_env 16) (sample_cfx u b m) = 16"
  "hdr_use_mdc (sample_env 16) (sample_cfx u b m)"
  "snd (pkt_write_fp (sample_env bl) pk)
     = [if pkttype pk = CDK_PKT_ENCRYPTED_MDC then 0xD2 else 0xC9]"
  "fst (pkt_write_fp (sample_env bl) pk) = CDK_Success"
  "cfx_dek (sample_cfx u b m) = cfx_dek (sample_cfx u b m')"
  "cfx_mdc_method (sample_cfx u b m) = m"
  "blkmode_on (sample_cfx u b m) = b"
  "cfx_datalen (sample_cfx u b m) = 0"
  "f_pos (new_file bs) = 0" "f_stat_ok (new_file bs)" "f_data (new_file bs) = bs"
  by (simp_all add: blocksize_of_def hdr_use_mdc_def sample_env_def sample_cfx_def new_file_def)

lemma length_mdc_trailer:
  "20 \<le> length (md_hash e GCRY_MD_SHA1 (md_data md @ body @ [0xD3, 0x14])) \<Longrightarrow>
     length (mdc_trailer e md body) = 22"
  by (simp add: mdc_trailer_def)

text \<open>
  C1 fails on the code. A plaintext of 8170 bytes is encoded with a 16-byte block
  cipher (MDC forced on, definite length). The body after the prefix is 8192 bytes,
  one full buffer, so the read that delivers the trailer does not hit the end of the
  file; the next read delivers nothing and leaves the loop. Decoding the encoder's
  own output (the one header byte of the sample packet writer taken off, the context
  set up for SHA-1 as the integrity-protected tag requires) succeeds and delivers the
  plaintext followed by the 22 bytes of the trailer.
\<close>

theorem roundtrip_fails_at_buffer_boundary:
  "fst (cipher_decode (sample_env 16) (sample_cfx False False GCRY_MD_SHA1)
          (new_file (drop 1 (snd (snd (snd (cipher_encode (sample_env 16)
             (sample_cfx False False 0) (new_file (replicate 8170 7)) []))))))
          []) = CDK_Success
   \<and> snd (snd (snd (cipher_decode (sample_env 16) (sample_cfx False False GCRY_MD_SHA1)
          (new_file (drop 1 (snd (snd (snd (cipher_encode (sample_env 16)
             (sample_cfx False False 0) (new_file (replicate 8170 7)) []))))))
          [])))
       = replicate 8170 7
         @ mdc_trailer (sample_env 16) (sent_md (sample_env 16) (sample_cfx False False 0))
             (replicate 8170 7)
   \<and> length (mdc_trailer (sample_env 16) (sent_md (sample_env 16) (sample_cfx False False 0))
             (replicate 8170 7)) = 22"
proof -
  let ?e = "sample_env 16"
  let ?cfx = "sample_cfx False False 0"
  let ?cfxd = "sample_cfx False False GCRY_MD_SHA1"
  let ?P = "replicate 8170 (7 :: byte)"
  let ?fp = "new_file ?P"
  let ?T = "mdc_trailer ?e (sent_md ?e ?cfx) ?P"
  have lT: "length ?T = 22"
    by (rule length_mdc_trailer) (simp add: sample_env_def)
  have nb: "\<not> blkmode_on (encode_setup ?e ?cfx ?fp)"
    by (simp add: encode_setup_fields sample_roundtrip_facts)
  have n: "1 = length ([] @ snd (pkt_write_fp ?e (header_packet ?e (encode_setup ?e ?cfx ?fp))))"
    by (simp add: sample_roundtrip_facts)
  have dl: "\<not> (0 < cfx_datalen ?cfxd \<and> cfx_datalen ?cfxd < int (blocksize_of ?e ?cfx + 2))"
    by (simp add: sample_roundtrip_facts)
  note R = roundtrip_definite_mdc [of ?e ?cfx ?fp ?cfxd 1 "[]" "[]",
      OF _ _ sample_lib_ok sample_roundtrip_facts(4) sample_roundtrip_facts(2) nb
         sample_open_facts(2) sample_open_facts(5) sample_roundtrip_facts(9)
         sample_open_facts(6) sample_roundtrip_facts(10) sample_roundtrip_facts(5)
         sample_roundtrip_facts(6) _ dl n]
  have spec: "decode_rounds ?e (sent_md ?e ?cfx) (?P @ ?T) = (CDK_Success, ?P @ ?T)"
    by (simp add: decode_rounds_def Let_def lT sample_open_facts(7))
  from R show ?thesis
    by (simp add: sample_roundtrip_facts spec lT)
qed

subsection \<open>The declared length\<close>

text \<open>
  C7, as amended. \<^verbatim>\<open>write_header\<close> adds 22 to the declared length only when that
  length is not 0 (\<^verbatim>\<open>if (use_mdc && cfx->datalen)\<close>). For an input whose length is
  known and not 0, with MDC active and block mode off, the packet handed to the packet
  writer declares the plaintext length plus 22 in \<^verbatim>\<open>len\<close> and \<open>blocksize + 2\<close> in
  \<^verbatim>\<open>extralen\<close>, together the plaintext length plus the prefix length plus 22. When
  the block length is accepted and the library calls and the packet writer succeed,
  \<^verbatim>\<open>cipher_encode\<close> succeeds, its output begins with what the packet writer makes of
  this packet, and the bytes that follow are as many as the packet declares.
\<close>

theorem declared_length_definite_mdc:
  assumes "f_stat_ok fp" "f_data fp \<noteq> []"
    "\<not> blkmode_on (encode_setup e cfx fp)" "hdr_use_mdc e cfx"
  shows "ed_len (header_packet e (encode_setup e cfx fp)) = int (length (f_data fp)) + 22
     \<and> ed_extralen (header_packet e (encode_setup e cfx fp)) = blocksize_of e cfx + 2
     \<and> ed_len (header_packet e (encode_setup e cfx fp))
         + int (ed_extralen (header_packet e (encode_setup e cfx fp)))
       = int (length (f_data fp)) + int (blocksize_of e cfx + 2) + 22
     \<and> (8 \<le> blocksize_of e cfx \<and> blocksize_of e cfx \<le> 16 \<and> lib_ok e
          \<and> fst (pkt_write_fp e (header_packet e (encode_setup e cfx fp))) = CDK_Success
          \<and> 0 < BUFSIZE e \<and> md_algo_dlen e GCRY_MD_SHA1 = 20
          \<and> 20 \<le> length (md_hash e GCRY_MD_SHA1
                      (md_data (sent_md e cfx) @ f_data fp @ [0xD3, 0x14]))
          \<and> f_pos fp = 0 \<and> \<not> f_eof fp
        \<longrightarrow> fst (cipher_encode e cfx fp out) = CDK_Success
          \<and> take (length out
                    + length (snd (pkt_write_fp e (header_packet e (encode_setup e cfx fp)))))
               (snd (snd (snd (cipher_encode e cfx fp out))))
              = out @ snd (pkt_write_fp e (header_packet e (encode_setup e cfx fp)))
          \<and> int (length (snd (snd (snd (cipher_encode e cfx fp out)))))
              = int (length out)
                + int (length (snd (pkt_write_fp e (header_packet e (encode_setup e cfx fp)))))
                + (ed_len (header_packet e (encode_setup e cfx fp))
                   + int (ed_extralen (header_packet e (encode_setup e cfx fp)))))"
proof -
  define pk where "pk = header_packet e (encode_setup e cfx fp)"
  define W where "W = snd (pkt_write_fp e pk)"
  have u: "hdr_use_mdc e (encode_setup e cfx fp)"
    and b: "blocksize_of e (encode_setup e cfx fp) = blocksize_of e cfx"
    using assms(4) by (simp_all add: hdr_use_mdc_def blocksize_of_def encode_setup_fields)
  have d: "cfx_datalen (encode_setup e cfx fp) = int (length (f_data fp))"
    using assms(1) by (simp add: encode_setup_fields fp_get_length_def)
  have l1: "ed_len pk = int (length (f_data fp)) + 22"
    and l2: "ed_extralen pk = blocksize_of e cfx + 2"
    unfolding pk_def using assms(2) by (simp_all add: header_packet_definite [OF assms(3) u] b d)
  have enc: "fst (cipher_encode e cfx fp out) = CDK_Success
      \<and> take (length out + length W) (snd (snd (snd (cipher_encode e cfx fp out)))) = out @ W
      \<and> int (length (snd (snd (snd (cipher_encode e cfx fp out)))))
          = int (length out) + int (length W) + (ed_len pk + int (ed_extralen pk))"
    if h: "8 \<le> blocksize_of e cfx" "blocksize_of e cfx \<le> 16" "lib_ok e"
      "fst (pkt_write_fp e pk) = CDK_Success" "0 < BUFSIZE e" "md_algo_dlen e GCRY_MD_SHA1 = 20"
      "20 \<le> length (md_hash e GCRY_MD_SHA1 (md_data (sent_md e cfx) @ f_data fp @ [0xD3, 0x14]))"
      "f_pos fp = 0" "\<not> f_eof fp"
  proof -
    define pre where "pre = header_prefix e (blocksize_of e cfx)"
    define h0 where "h0 = open_cipher e (cfx_dek cfx) False"
    define h1 where "h1 = gcry_cipher_sync (snd (gcry_cipher_encrypt e h0 pre))"
    have md0: "sent_md e cfx = gcry_md_write (gcry_md_open GCRY_MD_SHA1) pre"
      by (simp add: sent_md_def pre_def)
    define Epre where "Epre = fst (gcry_cipher_encrypt e h0 pre)"
    define Ebody where "Ebody = fst (gcry_cipher_encrypt e h1
                                (f_data fp @ mdc_trailer e (sent_md e cfx) (f_data fp)))"
    note E = cipher_encode_definite_mdc [OF h(1,2,3) h(4) [unfolded pk_def] assms(4,3) h(5,6,8,9)
        assms(1) pre_def h0_def h1_def md0, of out, folded pk_def W_def Epre_def Ebody_def]
    have lT: "length (mdc_trailer e (sent_md e cfx) (f_data fp)) = 22"
      by (rule length_mdc_trailer [OF h(7)])
    have lEpre: "length Epre = blocksize_of e cfx + 2"
      by (simp add: Epre_def length_encrypt pre_def length_header_prefix)
    have lEbody: "length Ebody = length (f_data fp) + 22"
      by (simp add: Ebody_def length_encrypt lT)
    have o: "snd (snd (snd (cipher_encode e cfx fp out))) = (out @ W) @ (Epre @ Ebody)"
      using E by simp
    have t: "take (length out + length W) (snd (snd (snd (cipher_encode e cfx fp out)))) = out @ W"
      unfolding o by simp
    have n: "int (length (snd (snd (snd (cipher_encode e cfx fp out)))))
          = int (length out) + int (length W) + (ed_len pk + int (ed_extralen pk))"
      unfolding o l1 l2 by (simp add: lEpre lEbody)
    from E t n show ?thesis by blast
  qed
  from l1 l2 enc show ?thesis
    unfolding pk_def [symmetric] W_def [symmetric] by simp
qed

theorem declared_length_definite_mdc_witness:
  "ed_len (header_packet (sample_env 16)
       (encode_setup (sample_env 16) (sample_cfx False False 0) (new_file [1, 2, 3]))) = 25
   \<and> ed_extralen (header_packet (sample_env 16)
       (encode_setup (sample_env 16) (sample_cfx False False 0) (new_file [1, 2, 3]))) = 18
   \<and> fst (cipher_encode (sample_env 16) (sample_cfx False False 0) (new_file [1, 2, 3]) [])
       = CDK_Success
   \<and> length (snd (snd (snd (cipher_encode (sample_env 16) (sample_cfx False False 0)
       (new_file [1, 2, 3]) [])))) = 1 + (25 + 18)"
proof -
  let ?e = "sample_env 16"
  let ?cfx = "sample_cfx False False 0"
  let ?fp = "new_file [1, 2, 3]"
  have bs: "blocksize_of ?e ?cfx = 16"
    by (simp add: blocksize_of_def sample_env_def)
  have h1: "f_stat_ok ?fp" and h2: "f_data ?fp \<noteq> []"
    by (simp_all add: new_file_def)
  have h3: "\<not> blkmode_on (encode_setup ?e ?cfx ?fp)"
    by (simp add: encode_setup_fields sample_cfx_def)
  have h4: "hdr_use_mdc ?e ?cfx"
    by (simp add: hdr_use_mdc_def bs)
  have g: "8 \<le> blocksize_of ?e ?cfx \<and> blocksize_of ?e ?cfx \<le> 16 \<and> lib_ok ?e
      \<and> fst (pkt_write_fp ?e (header_packet ?e (encode_setup ?e ?cfx ?fp))) = CDK_Success
      \<and> 0 < BUFSIZE ?e \<and> md_algo_dlen ?e GCRY_MD_SHA1 = 20
      \<and> 20 \<le> length (md_hash ?e GCRY_MD_SHA1
                  (md_data (sent_md ?e ?cfx) @ f_data ?fp @ [0xD3, 0x14]))
      \<and> f_pos ?fp = 0 \<and> \<not> f_eof ?fp"
    unfolding bs using sample_lib_ok [of 16]
    by (simp add: sample_env_def new_file_def)
  have lw: "length (snd (pkt_write_fp ?e (header_packet ?e (encode_setup ?e ?cfx ?fp)))) = 1"
    by (simp add: sample_env_def)
  note T = declared_length_definite_mdc [OF h1 h2 h3 h4, of "[]"]
  from T have a: "ed_len (header_packet ?e (encode_setup ?e ?cfx ?fp)) = 25"
    and b: "ed_extralen (header_packet ?e (encode_setup ?e ?cfx ?fp)) = 18"
    by (simp_all add: bs new_file_def)
  from T g have c: "fst (cipher_encode ?e ?cfx ?fp []) = CDK_Success"
    and n: "int (length (snd (snd (snd (cipher_encode ?e ?cfx ?fp [])))))
          = int (length ([] :: byte list))
            + int (length (snd (pkt_write_fp ?e (header_packet ?e (encode_setup ?e ?cfx ?fp)))))
            + (ed_len (header_packet ?e (encode_setup ?e ?cfx ?fp))
               + int (ed_extralen (header_packet ?e (encode_setup ?e ?cfx ?fp))))"
    by blast+
  from n have "length (snd (snd (snd (cipher_encode ?e ?cfx ?fp [])))) = 1 + (25 + 18)"
    unfolding a b lw by simp
  with a b c show ?thesis by blast
qed

text \<open>
  C7 as stated fails for an empty plaintext: the declared length stays 0, so
  \<^verbatim>\<open>len\<close> and \<^verbatim>\<open>extralen\<close> add up to 18 and not to 0 + 18 + 22.
\<close>

theorem declared_length_empty_input:
  "ed_len (header_packet (sample_env 16)
       (encode_setup (sample_env 16) (sample_cfx False False 0) (new_file [])))
     + int (ed_extralen (header_packet (sample_env 16)
       (encode_setup (sample_env 16) (sample_cfx False False 0) (new_file []))))
   \<noteq> int (length ([] :: byte list)) + int (16 + 2) + 22"
proof -
  let ?e = "sample_env 16"
  let ?cfx = "encode_setup ?e (sample_cfx False False 0) (new_file [])"
  have bs: "blocksize_of ?e ?cfx = 16"
    by (simp add: blocksize_of_def sample_env_def)
  have h3: "\<not> blkmode_on ?cfx"
    by (simp add: encode_setup_fields sample_cfx_def)
  have h4: "hdr_use_mdc ?e ?cfx"
    by (simp add: hdr_use_mdc_def bs)
  have "cfx_datalen ?cfx = 0"
    by (simp add: encode_setup_fields fp_get_length_def new_file_def)
  then show ?thesis
    by (simp add: header_packet_definite [OF h3 h4] bs)
qed

subsection \<open>The trailer check on decode\<close>

text \<open>
  C2, as amended. \<^verbatim>\<open>cipher_decode\<close> with MDC active and block mode off, on an input
  whose prefix passes the self-check and whose body leaves a last read of at least 22
  bytes. \<^verbatim>\<open>read_header\<close> opens the hash handle and writes the decrypted prefix to it;
  \<^verbatim>\<open>cipher_decode_file\<close> hashes every full buffer it delivers, and at the end of the
  input \<^verbatim>\<open>finalize_mdc\<close> hashes the last buffer up to and including the two bytes
  that open the trailer. So the last 22 decrypted bytes are checked and kept out of the
  output: if their first two bytes are not \<open>0xD3, 0x14\<close> the result is
  \<open>CDK_Inv_Packet\<close>; otherwise, if the 20 bytes after them differ from the digest of
  the decrypted prefix, the decrypted body without its last 22 bytes and, last, the
  two bytes \<open>0xD3, 0x14\<close>, the result is \<open>CDK_Bad_MDC\<close>; otherwise decoding succeeds
  and has written exactly the body without the trailer. On failure only the full
  buffers before the last read have been written.
\<close>

theorem trailer_check_on_decode:
  assumes "8 \<le> blocksize_of e cfx" "blocksize_of e cfx \<le> 16" "lib_ok e"
    "\<not> (0 < cfx_datalen cfx \<and> cfx_datalen cfx < int (blocksize_of e cfx + 2))"
    "cfx_mdc_method cfx = GCRY_MD_SHA1" "\<not> blkmode_on cfx"
    "0 < BUFSIZE e" "md_algo_dlen e GCRY_MD_SHA1 = 20" "\<not> f_eof fp"
    "f_pos fp + (blocksize_of e cfx + 2) \<le> length (f_data fp)"
    "decrypted_prefix e cfx fp ! (blocksize_of e cfx - 2)
        = decrypted_prefix e cfx fp ! blocksize_of e cfx"
    "decrypted_prefix e cfx fp ! (blocksize_of e cfx - 1)
        = decrypted_prefix e cfx fp ! (blocksize_of e cfx + 1)"
    "22 \<le> length (decrypted_body e cfx fp) mod BUFSIZE e"
  shows "fst (cipher_decode e cfx fp out)
       = (if take 2 (trailer_of (decrypted_body e cfx fp)) \<noteq> [0xD3, 0x14] then CDK_Inv_Packet
          else if drop 2 (trailer_of (decrypted_body e cfx fp))
                  \<noteq> take 20 (md_hash e GCRY_MD_SHA1
                        (decrypted_prefix e cfx fp @ body_of (decrypted_body e cfx fp)
                           @ [0xD3, 0x14]))
          then CDK_Bad_MDC
          else CDK_Success)
     \<and> snd (snd (snd (cipher_decode e cfx fp out)))
       = out @ (if fst (cipher_decode e cfx fp out) = CDK_Success
                then body_of (decrypted_body e cfx fp)
                else take (length (decrypted_body e cfx fp)
                             - length (decrypted_body e cfx fp) mod BUFSIZE e)
                       (decrypted_body e cfx fp))"
proof -
  define bs where "bs = blocksize_of e cfx"
  define pre where "pre = decrypted_prefix e cfx fp"
  define D where "D = decrypted_body e cfx fp"
  define md where "md = gcry_md_write (gcry_md_open GCRY_MD_SHA1) pre"
  define h3 where "h3 = gcry_cipher_sync (snd (gcry_cipher_decrypt e
                     (open_cipher e (cfx_dek cfx) False)
                     (take (bs + 2) (drop (f_pos fp) (f_data fp)))))"
  define cfx1 where "cfx1 = cfx\<lparr>cfx_mdc := Some md, cfx_hd := h3\<rparr>"
  define fp1 where "fp1 = fp\<lparr>f_pos := f_pos fp + (bs + 2)\<rparr>"
  have mne: "cfx_mdc_method cfx \<noteq> 0" and m0: "(cfx_mdc_method cfx = 0) = False"
    by (simp_all add: assms(5) GCRY_MD_SHA1_def)
  have rh: "read_header e cfx fp = (CDK_Success, cfx1, fp1)"
    unfolding read_header_ok [OF assms(1,2,3,4,10,11,12) mne assms(6)]
    by (simp add: cfx1_def fp1_def md_def h3_def pre_def bs_def assms(5))
  have cd: "cipher_decode e cfx fp out = cipher_decode_file e cfx1 fp1 out"
    by (simp add: cipher_decode_def rh)
  have on1: "\<not> blkmode_on cfx1" using assms(6) by (simp add: cfx1_def)
  have md1: "cfx_mdc cfx1 = Some md" by (simp add: cfx1_def)
  have alg: "md_algo md = GCRY_MD_SHA1"
    by (simp add: md_def gcry_md_write_def gcry_md_open_def)
  have ne1: "\<not> f_eof fp1" using assms(9) by (simp add: fp1_def)
  have rest: "drop (f_pos fp1) (f_data fp1) = drop (f_pos fp + (bs + 2)) (f_data fp)"
    by (simp add: fp1_def)
  have D1: "D = fst (gcry_cipher_decrypt e (cfx_hd cfx1) (drop (f_pos fp1) (f_data fp1)))"
    unfolding rest by (simp add: D_def decrypted_body_def m0 cfx1_def h3_def bs_def)
  have lD: "length D = length (drop (f_pos fp1) (f_data fp1))"
    unfolding D1 by (rule length_decrypt)
  have r22: "22 \<le> length (drop (f_pos fp1) (f_data fp1)) mod BUFSIZE e"
    using assms(13) unfolding D_def [symmetric] lD .
  note F = decode_file_trailer_check [OF on1 assms(7) md1 alg assms(8) ne1 r22 D1, of out,
      folded cd]
  have r22': "22 \<le> length D mod BUFSIZE e" using assms(13) unfolding D_def .
  have 22: "22 \<le> length D"
    by (rule order_trans [OF r22' mod_less_eq_dividend])
  define T where "T = trailer_of D"
  have lT: "length T = 22" using 22 by (simp add: T_def trailer_of_def)
  define X where "X = take 20 (md_hash e GCRY_MD_SHA1 (pre @ body_of D @ [0xD3, 0x14]))"
  have mt: "mdc_trailer e md (body_of D) = [0xD3, 0x14] @ X"
    by (simp add: mdc_trailer_def md_def gcry_md_write_def gcry_md_open_def X_def)
  have split: "T = take 2 T @ drop 2 T" by simp
  have eqv: "take 2 T = [0xD3, 0x14] \<Longrightarrow> (T \<noteq> [0xD3, 0x14] @ X) = (drop 2 T \<noteq> X)"
  proof -
    assume a: "take 2 T = [0xD3, 0x14]"
    have "T = [0xD3, 0x14] @ drop 2 T" using split unfolding a .
    then show ?thesis by (metis same_append_eq)
  qed
  have v: "(if take 2 T \<noteq> [0xD3, 0x14] then CDK_Inv_Packet
            else if T \<noteq> mdc_trailer e md (body_of D) then CDK_Bad_MDC else CDK_Success)
         = (if take 2 T \<noteq> [0xD3, 0x14] then CDK_Inv_Packet
            else if drop 2 T \<noteq> X then CDK_Bad_MDC else CDK_Success)"
    using eqv unfolding mt by (cases "take 2 T = [0xD3, 0x14]") simp_all
  show ?thesis
    using F unfolding T_def [symmetric] v
    unfolding D_def [symmetric] pre_def [symmetric] X_def T_def by blast
qed

theorem trailer_check_on_decode_witness:
  "fst (cipher_decode (sample_env 16) (sample_cfx False False GCRY_MD_SHA1)
          (new_file [1, 0, 3, 2, 5, 4, 7, 6, 9, 8, 11, 10, 13, 12, 15, 14, 1, 31,
                     12, 12, 8, 223, 29, 136, 133, 138, 135, 132, 129, 134, 131, 128,
                     3, 6, 5, 0, 7, 10, 9, 4, 11, 156, 98]) [9]) = CDK_Success
   \<and> snd (snd (snd (cipher_decode (sample_env 16) (sample_cfx False False GCRY_MD_SHA1)
          (new_file [1, 0, 3, 2, 5, 4, 7, 6, 9, 8, 11, 10, 13, 12, 15, 14, 1, 31,
                     12, 12, 8, 223, 29, 136, 133, 138, 135, 132, 129, 134, 131, 128,
                     3, 6, 5, 0, 7, 10, 9, 4, 11, 156, 98]) [9]))) = [9, 1, 2, 3]"
proof -
  let ?e = "sample_env 16"
  let ?cfx = "sample_cfx False False GCRY_MD_SHA1"
  let ?fp = "new_file [1, 0, 3, 2, 5, 4, 7, 6, 9, 8, 11, 10, 13, 12, 15, 14, 1, 31,
                     12, 12, 8, 223, 29, 136, 133, 138, 135, 132, 129, 134, 131, 128,
                     3, 6, 5, 0, 7, 10, 9, 4, 11, 156, 98]"
  have bs: "blocksize_of ?e ?cfx = 16" by (rule sample_roundtrip_facts(1))
  have h1: "8 \<le> blocksize_of ?e ?cfx" and h2: "blocksize_of ?e ?cfx \<le> 16"
    by (simp_all add: bs)
  have h4: "\<not> (0 < cfx_datalen ?cfx \<and> cfx_datalen ?cfx < int (blocksize_of ?e ?cfx + 2))"
    by (simp add: sample_roundtrip_facts)
  have h6: "\<not> blkmode_on ?cfx" by (simp add: sample_roundtrip_facts)
  have h10: "f_pos ?fp + (blocksize_of ?e ?cfx + 2) \<le> length (f_data ?fp)"
    by (simp add: bs new_file_def)
  have P: "decrypted_prefix ?e ?cfx ?fp
      = [0, 1, 2, 3, 4, 5, 6, 7, 8, 9, 10, 11, 12, 13, 14, 15, 14, 15]"
    by code_simp
  have D: "decrypted_body ?e ?cfx ?fp
      = [1, 2, 3, 0xD3, 0x14, 130, 130, 130, 130, 130, 130, 130, 130, 130, 130,
         130, 130, 130, 130, 130, 130, 130, 130, 130, 130]"
    by code_simp
  have h11: "decrypted_prefix ?e ?cfx ?fp ! (blocksize_of ?e ?cfx - 2)
        = decrypted_prefix ?e ?cfx ?fp ! blocksize_of ?e ?cfx"
    and h12: "decrypted_prefix ?e ?cfx ?fp ! (blocksize_of ?e ?cfx - 1)
        = decrypted_prefix ?e ?cfx ?fp ! (blocksize_of ?e ?cfx + 1)"
    unfolding bs P by simp_all
  have h13: "22 \<le> length (decrypted_body ?e ?cfx ?fp) mod BUFSIZE ?e"
    unfolding D by (simp add: sample_open_facts(7))
  have H: "take 20 (md_hash ?e GCRY_MD_SHA1
             [0, 1, 2, 3, 4, 5, 6, 7, 8, 9, 10, 11, 12, 13, 14, 15, 14, 15, 1, 2, 3,
              0xD3, 0x14])
      = [130, 130, 130, 130, 130, 130, 130, 130, 130, 130,
         130, 130, 130, 130, 130, 130, 130, 130, 130, 130]"
    by code_simp
  from trailer_check_on_decode [OF h1 h2 sample_lib_ok h4 sample_roundtrip_facts(6) h6
      sample_open_facts(2) sample_open_facts(5) sample_open_facts(6) h10 h11 h12 h13, of "[9]"]
  show ?thesis unfolding P D by (simp add: trailer_of_def body_of_def H)
qed

text \<open>
  C2 as stated fails: the encoding of the plaintext 1, 2, 3 under the sample
  environment with the encrypted first byte of the trailer changed from 223 to 222 is
  rejected with \<open>CDK_Inv_Packet\<close>, not with \<open>CDK_Bad_MDC\<close>.
\<close>

theorem tag_mismatch_is_inv_packet:
  "fst (cipher_decode (sample_env 16) (sample_cfx False False GCRY_MD_SHA1)
          (new_file [1, 0, 3, 2, 5, 4, 7, 6, 9, 8, 11, 10, 13, 12, 15, 14, 1, 31,
                     12, 12, 8, 222, 29, 136, 133, 138, 135, 132, 129, 134, 131, 128,
                     3, 6, 5, 0, 7, 10, 9, 4, 11, 156, 98]) []) = CDK_Inv_Packet"
  by code_simp

subsection \<open>Block mode\<close>

lemma size_t_of_nat: "0 \<le> x \<Longrightarrow> x < 2 ^ 64 \<Longrightarrow> size_t_of x = nat x"
  by (simp add: size_t_of_def)

lemma next_partial_open:
  "blkmode_nleft cfx \<noteq> 0 \<Longrightarrow>
     next_partial e out r cfx = (out, r - blkmode_nleft cfx, cfx)"
  by (simp add: next_partial_def)

lemma next_partial_big:
  "blkmode_nleft cfx = 0 \<Longrightarrow> int (BUFSIZE e) < r \<Longrightarrow>
     next_partial e out r cfx
       = (out @ [of_nat (0xE0 OR DEF_BLOCKBITS e)], r - int (BUFSIZE e),
          cfx\<lparr>blkmode_nleft := int (BUFSIZE e)\<rparr>)"
  by (simp add: next_partial_def)

lemma next_partial_last_short:
  "blkmode_nleft cfx = 0 \<Longrightarrow> r \<le> int (BUFSIZE e) \<Longrightarrow> 0 \<le> r \<Longrightarrow> r < 192 \<Longrightarrow>
     next_partial e out r cfx
       = (out @ [of_nat (nat r)], 0, cfx\<lparr>blkmode_nleft := r\<rparr>)"
  by (simp add: next_partial_def Let_def size_t_of_nat)

lemma next_partial_last_long:
  "blkmode_nleft cfx = 0 \<Longrightarrow> r \<le> int (BUFSIZE e) \<Longrightarrow> 192 \<le> r \<Longrightarrow> r \<le> 512 \<Longrightarrow>
     next_partial e out r cfx
       = (out @ [of_nat ((nat r - 192) div 256 + 192), of_nat ((nat r - 192) mod 256)],
          192, cfx\<lparr>blkmode_nleft := r - 192\<rparr>)"
proof -
  assume a: "blkmode_nleft cfx = 0" "r \<le> int (BUFSIZE e)" "192 \<le> r" "r \<le> 512"
  then have s: "size_t_of r = nat r" by (simp add: size_t_of_nat)
  from a have b: "\<not> nat r < 192" "nat r < 8384" "int (nat r - 192) = r - 192" by simp_all
  from a show ?thesis
    by (simp add: next_partial_def Let_def s b)
qed

lemma fread_zero: "fread 0 fp = ([], fp)"
  by (simp add: fread_def)

lemma fread_enough:
  "n \<le> length (f_data fp) - f_pos fp \<Longrightarrow>
     fread n fp = (take n (drop (f_pos fp) (f_data fp)), fp\<lparr>f_pos := f_pos fp + n\<rparr>)"
  by (cases fp) (simp add: fread_def Let_def min_def)

lemma write_partial_block_read:
  assumes "next_partial e out r cfx = (out1, r1, cfx1)"
    "0 \<le> blkmode_nleft cfx1" "blkmode_nleft cfx1 \<le> int (BUFSIZE e)"
    "nat (blkmode_nleft cfx1) \<le> length (f_data fp) - f_pos fp"
    "blkmode_nleft cfx1 < 2 ^ 64"
  shows "write_partial_block e fp out r cfx =
    (if blkmode_nleft cfx1 = 0 then (CDK_EOF, fp, out1, r1, cfx1)
     else (CDK_Success, fp\<lparr>f_pos := f_pos fp + nat (blkmode_nleft cfx1)\<rparr>,
           out1 @ fst (gcry_cipher_encrypt e (cfx_hd cfx1)
                    (take (nat (blkmode_nleft cfx1)) (drop (f_pos fp) (f_data fp)))),
           r1,
           cfx1\<lparr>cfx_mdc := md_write_opt (cfx_mdc cfx1)
                    (take (nat (blkmode_nleft cfx1)) (drop (f_pos fp) (f_data fp))),
                cfx_hd := snd (gcry_cipher_encrypt e (cfx_hd cfx1)
                    (take (nat (blkmode_nleft cfx1)) (drop (f_pos fp) (f_data fp)))),
                blkmode_nleft := 0\<rparr>))"
proof -
  let ?k = "nat (blkmode_nleft cfx1)"
  have s: "size_t_of (blkmode_nleft cfx1) = ?k"
    using assms(2,5) by (simp add: size_t_of_nat)
  have lt: "?k < Suc (BUFSIZE e)" using assms(2,3) by simp
  have len: "length (take ?k (drop (f_pos fp) (f_data fp))) = ?k"
    using assms(4) by simp
  show ?thesis
  proof (cases "blkmode_nleft cfx1 = 0")
    case True
    then show ?thesis
      by (simp add: write_partial_block_def assms(1) Let_def size_t_of_def fread_zero)
  next
    case False
    with assms(2) have "0 < ?k" by simp
    with len have ne: "take ?k (drop (f_pos fp) (f_data fp)) \<noteq> []" by auto
    from False assms(2) have z: "blkmode_nleft cfx1 - int ?k = 0" by simp
    from ne have ne': "\<not> (?k = 0 \<or> length (f_data fp) \<le> f_pos fp)" by simp
    from False ne' len show ?thesis
      by (simp add: write_partial_block_def assms(1) Let_def s lt fread_enough [OF assms(4)] z)
  qed
qed

lemma next_partial_on:
  "blkmode_on (snd (snd (next_partial e out r cfx))) = blkmode_on cfx"
  by (simp add: next_partial_def Let_def)

lemma encode_loop_block_step:
  "blkmode_on cfx \<Longrightarrow> \<not> f_eof fp \<Longrightarrow>
     cipher_encode_loop e cfx fp out r =
       (case write_partial_block e fp out r cfx of
          (rc, fp', out', r', cfx') \<Rightarrow>
            if rc \<noteq> CDK_Success then (rc, cfx', fp', out')
            else cipher_encode_loop e cfx' fp' out' r')"
  by (subst cipher_encode_loop.simps) (simp add: feof_def)

lemma encode_loop_chunk:
  assumes "blkmode_on cfx" "\<not> f_eof fp"
    "next_partial e out r cfx = (out1, r1, cfx1)"
    "0 < blkmode_nleft cfx1" "blkmode_nleft cfx1 \<le> int (BUFSIZE e)"
    "nat (blkmode_nleft cfx1) \<le> length (f_data fp) - f_pos fp"
    "blkmode_nleft cfx1 < 2 ^ 64"
  shows "\<exists>cfx' fp' out'.
      cipher_encode_loop e cfx fp out r = cipher_encode_loop e cfx' fp' out' r1
    \<and> blkmode_on cfx' \<and> blkmode_nleft cfx' = 0
    \<and> f_data fp' = f_data fp \<and> f_pos fp' = f_pos fp + nat (blkmode_nleft cfx1)
    \<and> \<not> f_eof fp' \<and> length out' = length out1 + nat (blkmode_nleft cfx1)"
proof -
  have nn: "0 \<le> blkmode_nleft cfx1" using assms(4) by simp
  note w = write_partial_block_read [OF assms(3) nn assms(5,6,7)]
  have on1: "blkmode_on cfx1"
    using next_partial_on [of e out r cfx] assms(1,3) by simp
  have len: "length (take (nat (blkmode_nleft cfx1)) (drop (f_pos fp) (f_data fp)))
      = nat (blkmode_nleft cfx1)"
    using assms(6) by simp
  let ?buf = "take (nat (blkmode_nleft cfx1)) (drop (f_pos fp) (f_data fp))"
  let ?cfx' = "cfx1\<lparr>cfx_mdc := md_write_opt (cfx_mdc cfx1) ?buf,
                     cfx_hd := snd (gcry_cipher_encrypt e (cfx_hd cfx1) ?buf),
                     blkmode_nleft := 0\<rparr>"
  let ?fp' = "fp\<lparr>f_pos := f_pos fp + nat (blkmode_nleft cfx1)\<rparr>"
  let ?out' = "out1 @ fst (gcry_cipher_encrypt e (cfx_hd cfx1) ?buf)"
  have "cipher_encode_loop e cfx fp out r = cipher_encode_loop e ?cfx' ?fp' ?out' r1"
    unfolding encode_loop_block_step [OF assms(1,2)] w using assms(4) by simp
  moreover have "blkmode_on ?cfx'" "blkmode_nleft ?cfx' = 0" "f_data ?fp' = f_data fp"
    "f_pos ?fp' = f_pos fp + nat (blkmode_nleft cfx1)" "\<not> f_eof ?fp'"
    "length ?out' = length out1 + nat (blkmode_nleft cfx1)"
    using assms(2,6) on1 by (simp_all add: length_encrypt)
  ultimately show ?thesis by blast
qed

lemma encode_loop_stop:
  assumes "blkmode_on cfx" "\<not> f_eof fp"
    "next_partial e out r cfx = (out1, r1, cfx1)" "blkmode_nleft cfx1 = 0"
  shows "cipher_encode_loop e cfx fp out r = (CDK_EOF, cfx1, fp, out1)"
proof -
  have "write_partial_block e fp out r cfx = (CDK_EOF, fp, out1, r1, cfx1)"
    using write_partial_block_read [OF assms(3), of fp] assms(4) by simp
  then show ?thesis
    unfolding encode_loop_block_step [OF assms(1,2)] by simp
qed

lemma sample_header_block:
  assumes "8192 \<le> length P"
  shows "\<exists>cfx3 out1.
      write_header (sample_env 16) (encode_setup (sample_env 16) (sample_cfx u True 0) (new_file P)) []
        = (CDK_Success, cfx3, out1)
    \<and> blkmode_on cfx3 \<and> blkmode_nleft cfx3 = 8151 \<and> length out1 = 19"
proof -
  let ?e = "sample_env 16"
  let ?cs = "encode_setup ?e (sample_cfx u True 0) (new_file P)"
  have bs: "blocksize_of ?e ?cs = 16" by (simp add: blocksize_of_def sample_env_def)
  have h1: "8 \<le> blocksize_of ?e ?cs" and h2: "blocksize_of ?e ?cs \<le> 16"
    by (simp_all add: bs)
  have h4: "fst (pkt_write_fp ?e (header_packet ?e ?cs)) = CDK_Success"
    by (simp add: sample_env_def)
  have lw: "length (snd (pkt_write_fp ?e (header_packet ?e ?cs))) = 1"
    by (simp add: sample_env_def)
  have B: "BUFSIZE ?e = 8192" by (simp add: sample_env_def)
  have on: "blkmode_on ?cs"
    using assms by (simp add: encode_setup_fields B sample_cfx_def fp_get_length_def new_file_def)
  have u: "hdr_use_mdc ?e ?cs" by (simp add: hdr_use_mdc_def bs)
  show ?thesis
    unfolding write_header_ok [OF h1 h2 sample_lib_ok h4]
    using on u by (simp add: bs B length_encrypt length_header_prefix lw)
qed

text \<open>
  Block mode with a 16-byte block cipher and an input of 8451 bytes: the chunk opened
  by the header takes 8151 bytes; for the 300 bytes that remain the two length bytes
  192, 108 announce 300, but the chunk opened has 108 bytes and the remaining count
  stays at 192; the next call announces 192 with the bytes 192, 0, opens a chunk of no
  bytes, reads nothing and returns \<open>CDK_EOF\<close>.
\<close>

lemma sample_block_encode_8451:
  assumes "length P = 8451"
  shows "\<exists>cfx' fp' out'.
      cipher_encode (sample_env 16) (sample_cfx u True 0) (new_file P) []
        = (CDK_EOF, cfx', fp', out')
    \<and> f_pos fp' = 8259 \<and> length out' = 8282"
proof -
  let ?e = "sample_env 16"
  let ?fp = "new_file P"
  have B: "BUFSIZE ?e = 8192" by (simp add: sample_env_def)
  from sample_header_block [of P u] assms
  obtain cfx3 out1 where
    wh: "write_header ?e (encode_setup ?e (sample_cfx u True 0) ?fp) [] = (CDK_Success, cfx3, out1)"
    and on3: "blkmode_on cfx3" and nl3: "blkmode_nleft cfx3 = 8151" and lo1: "length out1 = 19"
    by auto
  have fp0: "\<not> f_eof ?fp" "f_pos ?fp = 0" "f_data ?fp = P" "fp_get_length ?fp = 8451"
    using assms by (simp_all add: new_file_def fp_get_length_def)
  \<comment> \<open>first round: the chunk opened by the header\<close>
  have np1: "next_partial ?e out1 8451 cfx3 = (out1, 8451 - blkmode_nleft cfx3, cfx3)"
    using nl3 by (simp add: next_partial_open)
  from encode_loop_chunk [OF on3 fp0(1) np1] nl3 assms fp0
  obtain cfx4 fp4 out4 where
    s1: "cipher_encode_loop ?e cfx3 ?fp out1 8451 = cipher_encode_loop ?e cfx4 fp4 out4 300"
    and on4: "blkmode_on cfx4" and nl4: "blkmode_nleft cfx4 = 0"
    and d4: "f_data fp4 = P" and p4: "f_pos fp4 = 8151" and e4: "\<not> f_eof fp4"
    and lo4: "length out4 = 8170"
    by (auto simp: B lo1)
  \<comment> \<open>second round: 300 bytes remain\<close>
  have np2: "next_partial ?e out4 300 cfx4
      = (out4 @ [of_nat ((nat 300 - 192) div 256 + 192), of_nat ((nat 300 - 192) mod 256)],
         192, cfx4\<lparr>blkmode_nleft := 300 - 192\<rparr>)"
    by (rule next_partial_last_long) (simp_all add: nl4 B)
  from encode_loop_chunk [OF on4 e4 np2] assms d4 p4
  obtain cfx5 fp5 out5 where
    s2: "cipher_encode_loop ?e cfx4 fp4 out4 300 = cipher_encode_loop ?e cfx5 fp5 out5 192"
    and on5: "blkmode_on cfx5" and nl5: "blkmode_nleft cfx5 = 0"
    and d5: "f_data fp5 = P" and p5: "f_pos fp5 = 8259" and e5: "\<not> f_eof fp5"
    and lo5: "length out5 = 8280"
    by (auto simp: B lo4)
  \<comment> \<open>third round: 192 bytes remain, a chunk of no bytes is opened\<close>
  have np3: "next_partial ?e out5 192 cfx5
      = (out5 @ [of_nat ((nat 192 - 192) div 256 + 192), of_nat ((nat 192 - 192) mod 256)],
         192, cfx5\<lparr>blkmode_nleft := 192 - 192\<rparr>)"
    by (rule next_partial_last_long) (simp_all add: nl5 B)
  have s3: "cipher_encode_loop ?e cfx5 fp5 out5 192
      = (CDK_EOF, cfx5\<lparr>blkmode_nleft := 192 - 192\<rparr>, fp5,
         out5 @ [of_nat ((nat 192 - 192) div 256 + 192), of_nat ((nat 192 - 192) mod 256)])"
    by (rule encode_loop_stop [OF on5 e5 np3]) simp
  have "cipher_encode ?e (sample_cfx u True 0) ?fp []
      = (CDK_EOF, cfx5\<lparr>blkmode_nleft := 192 - 192\<rparr>, fp5,
         out5 @ [of_nat ((nat 192 - 192) div 256 + 192), of_nat ((nat 192 - 192) mod 256)])"
    by (simp add: cipher_encode_def wh cipher_encode_file_def fp0 s1 s2 s3)
  then show ?thesis using p5 lo5 by simp
qed

text \<open>
  The same with an input of 8251 bytes: after the first chunk 100 bytes remain and are
  written as the last chunk; the loop runs once more, writes the length byte 0 for a
  chunk of no bytes, reads nothing and returns \<open>CDK_EOF\<close>.
\<close>

lemma sample_block_encode_8251:
  assumes "length P = 8251"
  shows "\<exists>cfx' fp' out'.
      cipher_encode (sample_env 16) (sample_cfx u True 0) (new_file P) []
        = (CDK_EOF, cfx', fp', out')
    \<and> f_pos fp' = 8251 \<and> length out' = 8272"
proof -
  let ?e = "sample_env 16"
  let ?fp = "new_file P"
  have B: "BUFSIZE ?e = 8192" by (simp add: sample_env_def)
  from sample_header_block [of P u] assms
  obtain cfx3 out1 where
    wh: "write_header ?e (encode_setup ?e (sample_cfx u True 0) ?fp) [] = (CDK_Success, cfx3, out1)"
    and on3: "blkmode_on cfx3" and nl3: "blkmode_nleft cfx3 = 8151" and lo1: "length out1 = 19"
    by auto
  have fp0: "\<not> f_eof ?fp" "f_pos ?fp = 0" "f_data ?fp = P" "fp_get_length ?fp = 8251"
    using assms by (simp_all add: new_file_def fp_get_length_def)
  have np1: "next_partial ?e out1 8251 cfx3 = (out1, 8251 - blkmode_nleft cfx3, cfx3)"
    using nl3 by (simp add: next_partial_open)
  from encode_loop_chunk [OF on3 fp0(1) np1] nl3 assms fp0
  obtain cfx4 fp4 out4 where
    s1: "cipher_encode_loop ?e cfx3 ?fp out1 8251 = cipher_encode_loop ?e cfx4 fp4 out4 100"
    and on4: "blkmode_on cfx4" and nl4: "blkmode_nleft cfx4 = 0"
    and d4: "f_data fp4 = P" and p4: "f_pos fp4 = 8151" and e4: "\<not> f_eof fp4"
    and lo4: "length out4 = 8170"
    by (auto simp: B lo1)
  have np2: "next_partial ?e out4 100 cfx4
      = (out4 @ [of_nat (nat 100)], 0, cfx4\<lparr>blkmode_nleft := 100\<rparr>)"
    by (rule next_partial_last_short) (simp_all add: nl4 B)
  from encode_loop_chunk [OF on4 e4 np2] assms d4 p4
  obtain cfx5 fp5 out5 where
    s2: "cipher_encode_loop ?e cfx4 fp4 out4 100 = cipher_encode_loop ?e cfx5 fp5 out5 0"
    and on5: "blkmode_on cfx5" and nl5: "blkmode_nleft cfx5 = 0"
    and d5: "f_data fp5 = P" and p5: "f_pos fp5 = 8251" and e5: "\<not> f_eof fp5"
    and lo5: "length out5 = 8271"
    by (auto simp: B lo4)
  have np3: "next_partial ?e out5 0 cfx5
      = (out5 @ [of_nat (nat 0)], 0, cfx5\<lparr>blkmode_nleft := 0\<rparr>)"
    by (rule next_partial_last_short) (simp_all add: nl5 B)
  have s3: "cipher_encode_loop ?e cfx5 fp5 out5 0
      = (CDK_EOF, cfx5\<lparr>blkmode_nleft := 0\<rparr>, fp5, out5 @ [of_nat (nat 0)])"
    by (rule encode_loop_stop [OF on5 e5 np3]) simp
  have "cipher_encode ?e (sample_cfx u True 0) ?fp []
      = (CDK_EOF, cfx5\<lparr>blkmode_nleft := 0\<rparr>, fp5, out5 @ [of_nat (nat 0)])"
    by (simp add: cipher_encode_def wh cipher_encode_file_def fp0 s1 s2 s3)
  then show ?thesis using p5 lo5 by simp
qed

subsection \<open>Block mode in general\<close>

text \<open>
  \<^verbatim>\<open>num2bits\<close> yields the position of the highest bit set, and \<^verbatim>\<open>pow2\<close> the power of
  two, so that for a remaining count over 512 and up to \<^verbatim>\<open>BUFSIZE\<close> the chunk opened
  is the largest power of two within the remaining count.
\<close>

lemma num2bits_loop_bounds:
  "0 < n \<Longrightarrow> i \<le> num2bits_loop i n
     \<and> 2 ^ (num2bits_loop i n - i) \<le> n \<and> n < 2 * 2 ^ (num2bits_loop i n - i)"
proof (induction i n rule: num2bits_loop.induct)
  case (1 i n)
  show ?case
  proof (cases "1 < n")
    case True
    define L where "L = num2bits_loop (i + 1) (n div 2)"
    from True have "0 < n div 2" by simp
    from "1.IH" [OF True this]
    have a: "i + 1 \<le> L" and b: "2 ^ (L - (i + 1)) \<le> n div 2"
      and c: "n div 2 < 2 * 2 ^ (L - (i + 1))"
      by (simp_all add: L_def)
    have eq: "num2bits_loop i n = L"
      using True by (subst num2bits_loop.simps) (simp add: L_def)
    from a have d: "L - i = Suc (L - (i + 1))" by simp
    have "2 * 2 ^ (L - (i + 1)) \<le> n" using b by (simp add: algebra_simps)
    moreover have "n < 2 * (2 * 2 ^ (L - (i + 1)))" using c by arith
    ultimately show ?thesis using a unfolding eq d by simp
  next
    case False
    with "1.prems" have "n = 1" by simp
    then show ?thesis by (subst (1 2 3) num2bits_loop.simps) simp
  qed
qed

lemma pow2_eq: "y < 64 \<Longrightarrow> pow2 y = 2 ^ y"
proof (induction y)
  case 0
  show ?case by (simp add: pow2_def)
next
  case (Suc y)
  then have IH: "pow2 y = 2 ^ y" by simp
  have "(2 :: nat) ^ Suc y < 2 ^ 64"
    using Suc.prems by (intro power_strict_increasing) simp_all
  then show ?case
    using IH by (simp add: pow2_def)
qed

lemma next_partial_power_of_two:
  assumes "blkmode_nleft cfx = 0" "r \<le> int (BUFSIZE e)" "512 < r" "r < 2 ^ 64"
  shows "\<exists>k. next_partial e out r cfx
        = (out @ [of_nat (0xE0 OR k)], r - 2 ^ k, cfx\<lparr>blkmode_nleft := 2 ^ k\<rparr>)
      \<and> 2 ^ k \<le> r \<and> r < 2 * 2 ^ k"
proof -
  define k where "k = num2bits_loop 0 (nat r)"
  have pos: "0 < nat r" using assms(3) by simp
  from num2bits_loop_bounds [OF pos, of 0]
  have lo: "2 ^ k \<le> nat r" and hi: "nat r < 2 * 2 ^ k" by (simp_all add: k_def)
  have "(2 :: nat) ^ k < 2 ^ 64"
  proof -
    have "nat r < 2 ^ 64" using assms(3,4) by (simp add: nat_less_iff)
    with lo show ?thesis by (rule le_less_trans)
  qed
  then have k64: "k < 64"
    using power_less_imp_less_exp [of "2 :: nat" k 64] by simp
  have kb: "int k < 2 ^ 64"
  proof -
    have "int k < 64" using k64 by simp
    then show ?thesis by simp
  qed
  have sr: "size_t_of r = nat r" using assms(3,4) by (simp add: size_t_of_nat)
  have nb: "num2bits (nat r) = int k" using pos by (simp add: num2bits_def k_def)
  have sk: "size_t_of (int k) = k" using kb by (simp add: size_t_of_nat)
  have np: "next_partial e out r cfx
      = (out @ [of_nat (0xE0 OR k)], r - int (2 ^ k), cfx\<lparr>blkmode_nleft := int (2 ^ k)\<rparr>)"
    using assms(1,2,3) by (simp add: next_partial_def Let_def sr nb sk pow2_eq [OF k64])
  have "int (2 ^ k) \<le> r" "r < 2 * int (2 ^ k)"
    using lo hi assms(3) by (simp_all add: nat_le_iff nat_less_iff)
  with np show ?thesis by (intro exI [of _ k]) simp
qed

text \<open>
  Every round of the chunk loop either opens a chunk of no bytes and returns
  \<open>CDK_EOF\<close> at once, or reads a whole chunk without reaching the end-of-file
  indicator, which \<^verbatim>\<open>fread\<close> sets only when it comes up short. The loop therefore
  runs until a round reads nothing: in block mode it ends with \<open>CDK_EOF\<close> whatever
  the input, and so does \<^verbatim>\<open>cipher_encode\<close>.
\<close>

lemma block_loop_ends_with_eof:
  assumes "blkmode_on cfx" "\<not> f_eof fp"
    "r = int (length (f_data fp) - f_pos fp)"
    "0 \<le> blkmode_nleft cfx" "blkmode_nleft cfx \<le> int (BUFSIZE e)"
    "blkmode_nleft cfx \<le> r" "r < 2 ^ 64"
  shows "fst (cipher_encode_loop e cfx fp out r) = CDK_EOF"
  using assms
proof (induction "length (f_data fp) - f_pos fp" arbitrary: cfx fp out r rule: less_induct)
  case less
  note on = less.prems(1) and ne = less.prems(2) and r = less.prems(3)
    and n0 = less.prems(4) and nB = less.prems(5) and nr = less.prems(6) and r64 = less.prems(7)
  have r0: "0 \<le> r" using r by simp
  \<comment> \<open>what a round that reads a chunk of \<open>m\<close> bytes leads to\<close>
  have round: "fst (cipher_encode_loop e cfx fp out r) = CDK_EOF"
    if np: "next_partial e out r cfx = (out1, r1, cfx1)"
      and m: "blkmode_nleft cfx1 = m" "0 < m" "m \<le> int (BUFSIZE e)" "m \<le> r" "r1 = r - m"
    for out1 r1 cfx1 m
  proof -
    have av: "nat (blkmode_nleft cfx1) \<le> length (f_data fp) - f_pos fp"
      using m r by simp
    have b64: "blkmode_nleft cfx1 < 2 ^ 64" using m r64 by simp
    from encode_loop_chunk [OF on ne np _ _ av b64] m
    obtain cfx' fp' out' where
      st: "cipher_encode_loop e cfx fp out r = cipher_encode_loop e cfx' fp' out' r1"
      and on': "blkmode_on cfx'" and nl': "blkmode_nleft cfx' = 0"
      and d': "f_data fp' = f_data fp" and p': "f_pos fp' = f_pos fp + nat m"
      and e': "\<not> f_eof fp'"
      by auto
    have dec: "length (f_data fp') - f_pos fp' < length (f_data fp) - f_pos fp"
      using m r by (simp add: d' p')
    have r1: "r1 = int (length (f_data fp') - f_pos fp')"
      using m r by (simp add: d' p')
    have "fst (cipher_encode_loop e cfx' fp' out' r1) = CDK_EOF"
      using m r64 by (intro less.hyps [OF dec on' e' r1]) (simp_all add: nl')
    then show ?thesis by (simp add: st)
  qed
  \<comment> \<open>a round that opens a chunk of no bytes\<close>
  have stop: "fst (cipher_encode_loop e cfx fp out r) = CDK_EOF"
    if "next_partial e out r cfx = (out1, r1, cfx1)" "blkmode_nleft cfx1 = 0"
    for out1 r1 cfx1
    using encode_loop_stop [OF on ne that] by simp
  show ?case
  proof (cases "blkmode_nleft cfx = 0")
    case False
    with n0 have pos: "0 < blkmode_nleft cfx" by simp
    show ?thesis
      by (rule round [OF next_partial_open [OF False] refl pos nB nr refl])
  next
    case zero: True
    consider (big) "int (BUFSIZE e) < r" | (mid) "r \<le> int (BUFSIZE e)" "512 < r"
      | (short) "r \<le> int (BUFSIZE e)" "r < 192" | (long) "r \<le> int (BUFSIZE e)" "192 \<le> r" "r \<le> 512"
      by linarith
    then show ?thesis
    proof cases
      case big
      note np = next_partial_big [OF zero big, of out]
      show ?thesis
      proof (cases "BUFSIZE e = 0")
        case True
        then show ?thesis by (intro stop [OF np]) simp
      next
        case False
        then show ?thesis using big by (intro round [OF np]) simp_all
      qed
    next
      case mid
      from next_partial_power_of_two [OF zero mid r64, of out]
      obtain k where np: "next_partial e out r cfx
          = (out @ [of_nat (0xE0 OR k)], r - 2 ^ k, cfx\<lparr>blkmode_nleft := 2 ^ k\<rparr>)"
        and lo: "2 ^ k \<le> r" by blast
      from lo mid have "(2 :: int) ^ k \<le> int (BUFSIZE e)" by linarith
      then have "int (2 ^ k) \<le> int (BUFSIZE e)" by simp
      then have kb: "2 ^ k \<le> BUFSIZE e" by (simp only: of_nat_le_iff)
      show ?thesis using lo kb by (intro round [OF np]) simp_all
    next
      case short
      note np = next_partial_last_short [OF zero short(1) r0 short(2), of out]
      show ?thesis
      proof (cases "r = 0")
        case True
        then show ?thesis by (intro stop [OF np]) simp
      next
        case False
        with r0 short show ?thesis by (intro round [OF np]) simp_all
      qed
    next
      case long
      note np = next_partial_last_long [OF zero long, of out]
      show ?thesis
      proof (cases "r = 192")
        case True
        then show ?thesis by (intro stop [OF np]) simp
      next
        case False
        with long show ?thesis by (intro round [where m = "r - 192", OF np]) simp_all
      qed
    qed
  qed
qed

lemma block_mode_encode_ends_with_eof:
  assumes bs: "8 \<le> blocksize_of e cfx" "blocksize_of e cfx \<le> 16" and lib: "lib_ok e"
    and wr: "fst (pkt_write_fp e (header_packet e (encode_setup e cfx fp))) = CDK_Success"
    and on: "blkmode_on cfx"
    and fp: "f_stat_ok fp" "f_pos fp = 0" "\<not> f_eof fp"
    and len: "BUFSIZE e \<le> length (f_data fp)" "41 \<le> BUFSIZE e" "length (f_data fp) < 2 ^ 64"
  shows "fst (cipher_encode e cfx fp out) = CDK_EOF"
proof -
  define cs where "cs = encode_setup e cfx fp"
  have gl: "fp_get_length fp = int (length (f_data fp))"
    using fp by (simp add: fp_get_length_def)
  have b: "blocksize_of e cs = blocksize_of e cfx"
    by (simp add: cs_def blocksize_of_def encode_setup_fields)
  have on_cs: "blkmode_on cs"
    using on len by (simp add: cs_def encode_setup_fields gl)
  obtain rc cfx3 out1 where wh: "write_header e cs out = (rc, cfx3, out1)"
    by (cases "write_header e cs out") auto
  have h1: "8 \<le> blocksize_of e cs" and h2: "blocksize_of e cs \<le> 16"
    using bs by (simp_all add: b)
  have h4: "fst (pkt_write_fp e (header_packet e cs)) = CDK_Success"
    using wr by (simp add: cs_def)
  from wh have rc: "rc = CDK_Success" and on3: "blkmode_on cfx3"
    and nl3: "blkmode_nleft cfx3 = int (BUFSIZE e) - int (blocksize_of e cfx + 2)
                - (if hdr_use_mdc e cs then 22 + 1 else 0)"
    unfolding write_header_ok [OF h1 h2 lib h4] using on_cs by (auto simp: b)
  have n0: "0 \<le> blkmode_nleft cfx3" using bs len by (simp add: nl3)
  have nB: "blkmode_nleft cfx3 \<le> int (BUFSIZE e)" by (simp add: nl3)
  have nr: "blkmode_nleft cfx3 \<le> int (length (f_data fp))" using nB len by simp
  have r: "int (length (f_data fp)) = int (length (f_data fp) - f_pos fp)"
    using fp by simp
  have r64: "int (length (f_data fp)) < 2 ^ 64"
  proof -
    have "int (length (f_data fp)) < int (2 ^ 64)" using len(3) by (simp only: of_nat_less_iff)
    then show ?thesis by simp
  qed
  have loop: "fst (cipher_encode_loop e cfx3 fp out1 (int (length (f_data fp)))) = CDK_EOF"
    by (rule block_loop_ends_with_eof [OF on3 fp(3) r n0 nB nr r64])
  obtain rc' cfx' fp' out' where
    l: "cipher_encode_loop e cfx3 fp out1 (int (length (f_data fp))) = (rc', cfx', fp', out')"
    by (cases "cipher_encode_loop e cfx3 fp out1 (int (length (f_data fp)))") auto
  with loop have rc': "rc' = CDK_EOF" by simp
  show ?thesis
    by (simp add: cipher_encode_def cs_def [symmetric] wh rc cipher_encode_file_def gl l rc')
qed

subsection \<open>The round trip with a definite length, where it succeeds\<close>

text \<open>
  A trailer computed from the running hash passes the check of \<^verbatim>\<open>finalize_mdc\<close>.
  With block mode off, when the last read of the decoder holds the whole trailer
  (the length of body and trailer leaves a remainder of at least 22 modulo
  \<^verbatim>\<open>BUFSIZE\<close>), decoding what was encoded succeeds and returns the plaintext.
\<close>

lemma mdc_verdict_honest:
  assumes "md_algo md = GCRY_MD_SHA1" "md_algo_dlen e GCRY_MD_SHA1 = 20"
    "length (md_hash e GCRY_MD_SHA1 (md_data md @ P @ [0xD3, 0x14])) = 20"
  shows "mdc_verdict e md (P @ mdc_trailer e md P) = CDK_Success"
    and "length (mdc_trailer e md P) = 22"
proof -
  let ?T = "mdc_trailer e md P"
  show lT: "length ?T = 22" using assms(3) by (simp add: mdc_trailer_def)
  have 22: "22 \<le> length (P @ ?T)" using lT by simp
  have tr: "trailer_of (P @ ?T) = ?T" and bo: "body_of (P @ ?T) = P"
    using lT by (simp_all add: trailer_of_def body_of_def)
  have tag: "take 2 ?T = [0xD3, 0x14]" by (simp add: mdc_trailer_def)
  show "mdc_verdict e md (P @ ?T) = CDK_Success"
    unfolding mdc_verdict_explicit [OF 22 assms(1,2)] tr bo using tag by simp
qed

lemma roundtrip_definite_mdc_ok:
  assumes "8 \<le> blocksize_of e cfx" "blocksize_of e cfx \<le> 16" "lib_ok e"
    "fst (pkt_write_fp e (header_packet e (encode_setup e cfx fp))) = CDK_Success"
    "hdr_use_mdc e cfx" "\<not> blkmode_on (encode_setup e cfx fp)"
    "0 < BUFSIZE e" "md_algo_dlen e GCRY_MD_SHA1 = 20"
    "f_pos fp = 0" "\<not> f_eof fp" "f_stat_ok fp"
    "cfx_dek cfxd = cfx_dek cfx" "cfx_mdc_method cfxd = GCRY_MD_SHA1" "\<not> blkmode_on cfxd"
    "\<not> (0 < cfx_datalen cfxd \<and> cfx_datalen cfxd < int (blocksize_of e cfx + 2))"
    "n = length (out @ snd (pkt_write_fp e (header_packet e (encode_setup e cfx fp))))"
    and dl: "length (md_hash e GCRY_MD_SHA1
                (md_data (sent_md e cfx) @ f_data fp @ [0xD3, 0x14])) = 20"
    and last: "22 \<le> (length (f_data fp) + 22) mod BUFSIZE e"
  shows "fst (cipher_encode e cfx fp out) = CDK_Success
     \<and> fst (cipher_decode e cfxd
              (new_file (drop n (snd (snd (snd (cipher_encode e cfx fp out)))))) outd)
         = CDK_Success
     \<and> snd (snd (snd (cipher_decode e cfxd
              (new_file (drop n (snd (snd (snd (cipher_encode e cfx fp out)))))) outd)))
         = outd @ f_data fp"
proof -
  define P where "P = f_data fp"
  define T where "T = mdc_trailer e (sent_md e cfx) P"
  have alg: "md_algo (sent_md e cfx) = GCRY_MD_SHA1"
    by (simp add: sent_md_def gcry_md_write_def gcry_md_open_def)
  have v: "mdc_verdict e (sent_md e cfx) (P @ T) = CDK_Success" and lT: "length T = 22"
    using mdc_verdict_honest [OF alg assms(8), of P] dl by (simp_all add: P_def T_def)
  define r where "r = length (P @ T) mod BUFSIZE e"
  have r22: "22 \<le> r" using last by (simp add: r_def lT P_def)
  then have r0: "r \<noteq> 0" and r1: "\<not> r < 22" by simp_all
  have dr: "decode_rounds e (sent_md e cfx) (P @ T) = (CDK_Success, P)"
    unfolding decode_rounds_def Let_def r_def [symmetric]
    using r0 r1 v lT by simp
  from roundtrip_definite_mdc [OF assms(1-16), of outd]
  show ?thesis unfolding P_def [symmetric] T_def [symmetric] dr by simp
qed

subsection \<open>Block mode on sample inputs\<close>

text \<open>
  C3 fails on the code. For a final chunk of 192 to 512 bytes the C variable
  \<^verbatim>\<open>pktlen\<close> is reduced by 192 for the two-byte encoding and then stored, reduced, as
  the chunk size. With 8451 bytes of plaintext the encoder stops with \<open>CDK_EOF\<close> after
  8259 bytes: the sizes of the chunks it emitted do not add up to the length of the
  plaintext.
\<close>

theorem final_chunk_of_300_loses_192_bytes:
  "fst (cipher_encode (sample_env 16) (sample_cfx False True 0)
          (new_file (replicate 8451 7)) []) = CDK_EOF
   \<and> f_pos (fst (snd (snd (cipher_encode (sample_env 16) (sample_cfx False True 0)
          (new_file (replicate 8451 7)) [])))) = 8259
   \<and> length (snd (snd (snd (cipher_encode (sample_env 16) (sample_cfx False True 0)
          (new_file (replicate 8451 7)) [])))) = 8282"
proof -
  have "length (replicate 8451 (7 :: byte)) = 8451" by simp
  from sample_block_encode_8451 [OF this, of False]
  show ?thesis by auto
qed

text \<open>
  C5 fails on the code in block mode. With a 16-byte block cipher and \<^verbatim>\<open>use_mdc\<close>
  off the packet is tagged as integrity protected, but the chunk loop always ends
  with \<open>CDK_EOF\<close>, so \<^verbatim>\<open>write_mdc_packet\<close> is not called: for 8251 bytes of plaintext
  the output is 19 bytes of header and prefix, the 8251 encrypted bytes and two
  length bytes, 8272 bytes in all, and no trailer.
\<close>

theorem block_mode_writes_no_trailer:
  "pkttype (header_packet (sample_env 16)
      (encode_setup (sample_env 16) (sample_cfx False True 0) (new_file (replicate 8251 7))))
     = CDK_PKT_ENCRYPTED_MDC
   \<and> fst (cipher_encode (sample_env 16) (sample_cfx False True 0)
          (new_file (replicate 8251 7)) []) = CDK_EOF
   \<and> length (snd (snd (snd (cipher_encode (sample_env 16) (sample_cfx False True 0)
          (new_file (replicate 8251 7)) [])))) = 8272"
proof -
  have "length (replicate 8251 (7 :: byte)) = 8251" by simp
  from sample_block_encode_8251 [OF this, of False]
  have "fst (cipher_encode (sample_env 16) (sample_cfx False True 0)
          (new_file (replicate 8251 7)) []) = CDK_EOF
   \<and> length (snd (snd (snd (cipher_encode (sample_env 16) (sample_cfx False True 0)
          (new_file (replicate 8251 7)) [])))) = 8272"
    by auto
  moreover have "pkttype (header_packet (sample_env 16)
      (encode_setup (sample_env 16) (sample_cfx False True 0) (new_file (replicate 8251 7))))
     = CDK_PKT_ENCRYPTED_MDC"
    by (simp add: header_packet_def Let_def encode_setup_fields sample_env_def)
  ultimately show ?thesis by blast
qed

text \<open>
  Block mode with an 8-byte block cipher, the key asking for MDC, and an input of 8300
  bytes: the chunk opened by the header takes 8159 bytes, the 141 bytes that remain
  are written as the last chunk, and the loop runs once more, writes the length byte 0
  for a chunk of no bytes, reads nothing and returns \<open>CDK_EOF\<close>.
\<close>

lemma sample_header_block_8:
  assumes "8192 \<le> length P"
  shows "\<exists>cfx3 out1.
      write_header (sample_env 8) (encode_setup (sample_env 8) (sample_cfx True True 0) (new_file P)) []
        = (CDK_Success, cfx3, out1)
    \<and> blkmode_on cfx3 \<and> blkmode_nleft cfx3 = 8159 \<and> length out1 = 11"
proof -
  let ?e = "sample_env 8"
  let ?cs = "encode_setup ?e (sample_cfx True True 0) (new_file P)"
  have bs: "blocksize_of ?e ?cs = 8" by (simp add: blocksize_of_def sample_env_def)
  have h1: "8 \<le> blocksize_of ?e ?cs" and h2: "blocksize_of ?e ?cs \<le> 16"
    by (simp_all add: bs)
  have h4: "fst (pkt_write_fp ?e (header_packet ?e ?cs)) = CDK_Success"
    by (simp add: sample_env_def)
  have lw: "length (snd (pkt_write_fp ?e (header_packet ?e ?cs))) = 1"
    by (simp add: sample_env_def)
  have B: "BUFSIZE ?e = 8192" by (simp add: sample_env_def)
  have on: "blkmode_on ?cs"
    using assms by (simp add: encode_setup_fields B sample_cfx_def fp_get_length_def new_file_def)
  have u: "hdr_use_mdc ?e ?cs"
    by (simp add: hdr_use_mdc_def encode_setup_fields sample_cfx_def)
  show ?thesis
    unfolding write_header_ok [OF h1 h2 sample_lib_ok h4]
    using on u by (simp add: bs B length_encrypt length_header_prefix lw)
qed

lemma sample_block_encode_8300:
  assumes "length P = 8300"
  shows "\<exists>cfx' fp' out'.
      cipher_encode (sample_env 8) (sample_cfx True True 0) (new_file P) []
        = (CDK_EOF, cfx', fp', out')
    \<and> f_pos fp' = 8300 \<and> length out' = 8313"
proof -
  let ?e = "sample_env 8"
  let ?fp = "new_file P"
  have B: "BUFSIZE ?e = 8192" by (simp add: sample_env_def)
  from sample_header_block_8 [of P] assms
  obtain cfx3 out1 where
    wh: "write_header ?e (encode_setup ?e (sample_cfx True True 0) ?fp) [] = (CDK_Success, cfx3, out1)"
    and on3: "blkmode_on cfx3" and nl3: "blkmode_nleft cfx3 = 8159" and lo1: "length out1 = 11"
    by auto
  have fp0: "\<not> f_eof ?fp" "f_pos ?fp = 0" "f_data ?fp = P" "fp_get_length ?fp = 8300"
    using assms by (simp_all add: new_file_def fp_get_length_def)
  have np1: "next_partial ?e out1 8300 cfx3 = (out1, 8300 - blkmode_nleft cfx3, cfx3)"
    using nl3 by (simp add: next_partial_open)
  from encode_loop_chunk [OF on3 fp0(1) np1] nl3 assms fp0
  obtain cfx4 fp4 out4 where
    s1: "cipher_encode_loop ?e cfx3 ?fp out1 8300 = cipher_encode_loop ?e cfx4 fp4 out4 141"
    and on4: "blkmode_on cfx4" and nl4: "blkmode_nleft cfx4 = 0"
    and d4: "f_data fp4 = P" and p4: "f_pos fp4 = 8159" and e4: "\<not> f_eof fp4"
    and lo4: "length out4 = 8170"
    by (auto simp: B lo1)
  have np2: "next_partial ?e out4 141 cfx4
      = (out4 @ [of_nat (nat 141)], 0, cfx4\<lparr>blkmode_nleft := 141\<rparr>)"
    by (rule next_partial_last_short) (simp_all add: nl4 B)
  from encode_loop_chunk [OF on4 e4 np2] assms d4 p4
  obtain cfx5 fp5 out5 where
    s2: "cipher_encode_loop ?e cfx4 fp4 out4 141 = cipher_encode_loop ?e cfx5 fp5 out5 0"
    and on5: "blkmode_on cfx5" and nl5: "blkmode_nleft cfx5 = 0"
    and d5: "f_data fp5 = P" and p5: "f_pos fp5 = 8300" and e5: "\<not> f_eof fp5"
    and lo5: "length out5 = 8312"
    by (auto simp: B lo4)
  have np3: "next_partial ?e out5 0 cfx5
      = (out5 @ [of_nat (nat 0)], 0, cfx5\<lparr>blkmode_nleft := 0\<rparr>)"
    by (rule next_partial_last_short) (simp_all add: nl5 B)
  have s3: "cipher_encode_loop ?e cfx5 fp5 out5 0
      = (CDK_EOF, cfx5\<lparr>blkmode_nleft := 0\<rparr>, fp5, out5 @ [of_nat (nat 0)])"
    by (rule encode_loop_stop [OF on5 e5 np3]) simp
  have "cipher_encode ?e (sample_cfx True True 0) ?fp []
      = (CDK_EOF, cfx5\<lparr>blkmode_nleft := 0\<rparr>, fp5, out5 @ [of_nat (nat 0)])"
    by (simp add: cipher_encode_def wh cipher_encode_file_def fp0 s1 s2 s3)
  then show ?thesis using p5 lo5 by simp
qed

text \<open>
  C8 fails on the code in block mode. With MDC active (the key asks for it and the
  packet is tagged as integrity protected) the chunk loop ends with \<open>CDK_EOF\<close>, so
  \<^verbatim>\<open>cipher_encode_file\<close> does not call \<^verbatim>\<open>write_mdc_packet\<close>: for 8300 bytes of
  plaintext and an 8-byte block cipher the whole input is read and the output is one
  header byte, the 10 bytes of the prefix, the 8300 encrypted bytes and two length
  bytes. No trailer has been written.
\<close>

theorem mdc_trailer_missing_in_block_mode:
  "pkttype (header_packet (sample_env 8)
      (encode_setup (sample_env 8) (sample_cfx True True 0) (new_file (replicate 8300 7))))
     = CDK_PKT_ENCRYPTED_MDC
   \<and> fst (cipher_encode (sample_env 8) (sample_cfx True True 0)
          (new_file (replicate 8300 7)) []) = CDK_EOF
   \<and> f_pos (fst (snd (snd (cipher_encode (sample_env 8) (sample_cfx True True 0)
          (new_file (replicate 8300 7)) [])))) = 8300
   \<and> length (snd (snd (snd (cipher_encode (sample_env 8) (sample_cfx True True 0)
          (new_file (replicate 8300 7)) [])))) = 1 + (8 + 2) + 8300 + 2"
proof -
  have "length (replicate 8300 (7 :: byte)) = 8300" by simp
  from sample_block_encode_8300 [OF this]
  have "fst (cipher_encode (sample_env 8) (sample_cfx True True 0)
          (new_file (replicate 8300 7)) []) = CDK_EOF
   \<and> f_pos (fst (snd (snd (cipher_encode (sample_env 8) (sample_cfx True True 0)
          (new_file (replicate 8300 7)) [])))) = 8300
   \<and> length (snd (snd (snd (cipher_encode (sample_env 8) (sample_cfx True True 0)
          (new_file (replicate 8300 7)) [])))) = 1 + (8 + 2) + 8300 + 2"
    by auto
  moreover have "pkttype (header_packet (sample_env 8)
      (encode_setup (sample_env 8) (sample_cfx True True 0) (new_file (replicate 8300 7))))
     = CDK_PKT_ENCRYPTED_MDC"
    by (simp add: header_packet_def Let_def encode_setup_fields sample_cfx_def)
  ultimately show ?thesis by blast
qed

end
